theory Spec2Isabelle
  imports Main "HOL-Library.Sorting_Algorithms" "HOL-Library.List_Lexorder" "HOL-Library.Char_ord"
    "HOL-Library.Monad_Syntax"
begin

section \<open>The intermediate representation read by the generator\<close>

text \<open>
  The generator reads the basketry IR. Every \<open>x.name.value\<close> / \<open>x.typeName.value\<close> of the
  TypeScript is the string itself here. A validation rule is the discriminated union of the
  IR; the rule's parameter is kept as the text that a template literal interpolates for it.
  Every rule id that \<open>buildRules\<close> has no case for (\<open>required\<close>, \<open>string-format\<close>,
  \<open>string-enum\<close>, or a later kind) is \<open>OtherRule id\<close>.
\<close>

datatype ValidationRule =
    ArrayMaxItems string
  | ArrayMinItems string
  | ArrayUniqueItems
  | NumberGT string
  | NumberGTE string
  | NumberLT string
  | NumberLTE string
  | NumberMultipleOf string
  | StringMaxLength string
  | StringMinLength string
  | StringPattern string
  | OtherRule string

text \<open>A description is one string or an array of strings (\<open>Array.isArray\<close> tells them apart).\<close>

datatype Description = Single string | Multi "string list"

record TypedValue =
  typeName :: string
  isPrimitive :: bool
  isArray :: bool
  rules :: "ValidationRule list"

record Property = TypedValue +
  name :: string
  description :: "Description option"

type_synonym Parameter = Property

type_synonym ReturnType = TypedValue

record MapProperties =
  key :: TypedValue
  "value" :: TypedValue

record Type =
  name :: string
  description :: "Description option"
  properties :: "Property list"
  mapProperties :: "MapProperties option"

record Union =
  name :: string
  members :: "TypedValue list"

text \<open>
  An enum carries its literal values and the two metadata entries \<open>buildEnumDocs\<close> looks
  for: \<open>codegen-enum-description\<close> and \<open>codegen-enum-value-descriptions\<close> (an object
  from literals to descriptions; its own entries are a list of pairs, looked up by key).
\<close>

record Enum =
  name :: string
  "values" :: "string list"
  enumDescription :: "string option"
  valueDescriptions :: "(string \<times> string) list option"

record Method =
  name :: string
  parameters :: "Parameter list"
  returnType :: "ReturnType option"
  description :: "Description option"

record Interface =
  name :: string
  description :: "Description option"
  methods :: "Method list"

record Service =
  interfaces :: "Interface list"
  types :: "Type list"
  enums :: "Enum list"
  unions :: "Union list"

text \<open>
  Modelled from the spec: \<open>getTypeByName\<close>, \<open>getEnumByName\<close> and \<open>getUnionByName\<close> are
  imported from the basketry package, which is not part of the sources. The spec has the
  Service hold "a mapping from name to Type, Enum, and Union" against which a name is
  resolved: the lookup returns the entity of the Service that carries the name, if any.
\<close>

definition getTypeByName :: "Service \<Rightarrow> string \<Rightarrow> Type option" where
  "getTypeByName service tyName = find (\<lambda>t. Type.name t = tyName) (types service)"

definition getEnumByName :: "Service \<Rightarrow> string \<Rightarrow> Enum option" where
  "getEnumByName service tyName = find (\<lambda>e. Enum.name e = tyName) (enums service)"

definition getUnionByName :: "Service \<Rightarrow> string \<Rightarrow> Union option" where
  "getUnionByName service tyName = find (\<lambda>u. Union.name u = tyName) (unions service)"

section \<open>The closure resolver (interface-info.ts)\<close>

text \<open>
  A JavaScript \<open>Map\<close> iterates in insertion order, so it is a list of
  key/value pairs with distinct keys: \<open>set\<close> on a present key replaces the value in place,
  on a new key appends.
\<close>

type_synonym 'v jsmap = "(string \<times> 'v) list"

definition map_has :: "'v jsmap \<Rightarrow> string \<Rightarrow> bool" where
  "map_has m k = (k \<in> set (map fst m))"

definition map_get :: "'v jsmap \<Rightarrow> string \<Rightarrow> 'v option" where
  "map_get m k = map_of m k"

fun map_set :: "'v jsmap \<Rightarrow> string \<Rightarrow> 'v \<Rightarrow> 'v jsmap" where
  "map_set [] k v = [(k, v)]"
| "map_set ((k', v') # m) k v =
     (if k' = k then (k, v) # m else (k', v') # map_set m k v)"

definition map_keys :: "'v jsmap \<Rightarrow> string list" where
  "map_keys m = map fst m"

definition map_values :: "'v jsmap \<Rightarrow> 'v list" where
  "map_values m = map snd m"

text \<open>The six private maps of an \<open>InterfaceInfo\<close> object.\<close>

record InterfaceInfo =
  priv_inputEnums :: "Enum jsmap"
  priv_outputEnums :: "Enum jsmap"
  priv_inputTypes :: "Type jsmap"
  priv_outputTypes :: "Type jsmap"
  priv_inputUnions :: "Union jsmap"
  priv_outputUnions :: "Union jsmap"

definition emptyInfo :: InterfaceInfo where
  "emptyInfo = \<lparr> priv_inputEnums = [], priv_outputEnums = [],
                 priv_inputTypes = [], priv_outputTypes = [],
                 priv_inputUnions = [], priv_outputUnions = [] \<rparr>"

datatype mode = Input | Output

text \<open>
  A loop whose body may fail to return: the state is threaded through the elements in
  order, and the first body that does not return ends the loop without a result.
\<close>

fun forEach :: "('a \<Rightarrow> 's \<Rightarrow> 's option) \<Rightarrow> 'a list \<Rightarrow> 's \<Rightarrow> 's option" where
  "forEach f [] s = Some s"
| "forEach f (x # xs) s = (case f x s of None \<Rightarrow> None | Some s' \<Rightarrow> forEach f xs s')"

text \<open>
  The six guards that open \<open>traverse\<close>: the name is already a key of one of the three
  maps of the mode.
\<close>

definition visited :: "mode \<Rightarrow> InterfaceInfo \<Rightarrow> string \<Rightarrow> bool" where
  "visited mode info tyName =
    (if mode = Input \<and> map_has (priv_inputTypes info) tyName then True
     else if mode = Output \<and> map_has (priv_outputTypes info) tyName then True
     else if mode = Input \<and> map_has (priv_inputUnions info) tyName then True
     else if mode = Output \<and> map_has (priv_outputUnions info) tyName then True
     else if mode = Input \<and> map_has (priv_inputEnums info) tyName then True
     else if mode = Output \<and> map_has (priv_outputEnums info) tyName then True
     else False)"

text \<open>The three \<open>if (mode === 'input') a.set(...) else b.set(...)\<close> blocks.\<close>

definition setType :: "mode \<Rightarrow> string \<Rightarrow> Type \<Rightarrow> InterfaceInfo \<Rightarrow> InterfaceInfo" where
  "setType mode tyName ty info =
    (if mode = Input
     then info\<lparr>priv_inputTypes := map_set (priv_inputTypes info) tyName ty\<rparr>
     else info\<lparr>priv_outputTypes := map_set (priv_outputTypes info) tyName ty\<rparr>)"

definition setUnion :: "mode \<Rightarrow> string \<Rightarrow> Union \<Rightarrow> InterfaceInfo \<Rightarrow> InterfaceInfo" where
  "setUnion mode tyName un info =
    (if mode = Input
     then info\<lparr>priv_inputUnions := map_set (priv_inputUnions info) tyName un\<rparr>
     else info\<lparr>priv_outputUnions := map_set (priv_outputUnions info) tyName un\<rparr>)"

definition setEnum :: "mode \<Rightarrow> string \<Rightarrow> Enum \<Rightarrow> InterfaceInfo \<Rightarrow> InterfaceInfo" where
  "setEnum mode tyName e info =
    (if mode = Input
     then info\<lparr>priv_inputEnums := map_set (priv_inputEnums info) tyName e\<rparr>
     else info\<lparr>priv_outputEnums := map_set (priv_outputEnums info) tyName e\<rparr>)"

text \<open>
  \<open>traverse\<close> is a recursive generator whose callers drain it and drop what it yields, so
  the model keeps its effect on the six maps. The recursion of the source has no bound of
  its own; \<open>fuel\<close> is the depth of nested calls that is available, and \<open>None\<close> says that
  the depth was exhausted (the call did not return).
\<close>

fun traverse :: "Service \<Rightarrow> nat \<Rightarrow> string \<Rightarrow> mode \<Rightarrow> InterfaceInfo \<Rightarrow> InterfaceInfo option" where
  "traverse service 0 tyName mode info = None"
| "traverse service (Suc fuel) tyName mode info =
    (if visited mode info tyName then Some info
     else
       (case getTypeByName service tyName of
          Some ty \<Rightarrow>
            forEach
              (\<lambda>prop i. if \<not> isPrimitive prop
                         then traverse service fuel (typeName prop) mode i
                         else Some i)
              (properties ty)
              (setType mode tyName ty info)
        | None \<Rightarrow>
           (case getUnionByName service tyName of
              Some un \<Rightarrow>
                forEach
                  (\<lambda>member i. traverse service fuel (typeName member) mode i)
                  (members un)
                  (setUnion mode tyName un info)
            | None \<Rightarrow>
               (case getEnumByName service tyName of
                  Some e \<Rightarrow> Some (setEnum mode tyName e info)
                | None \<Rightarrow> Some info))))"

text \<open>
  \<open>init\<close>: for every method, every parameter is traversed as input, then the return type,
  when there is one and it is not primitive, as output.
\<close>

definition initMethod :: "Service \<Rightarrow> nat \<Rightarrow> Method \<Rightarrow> InterfaceInfo \<Rightarrow> InterfaceInfo option" where
  "initMethod service fuel method info =
    (case forEach (\<lambda>param i. traverse service fuel (typeName param) Input i)
            (parameters method) info of
       None \<Rightarrow> None
     | Some info' \<Rightarrow>
        (case returnType method of
           Some rt \<Rightarrow>
             if \<not> isPrimitive rt then traverse service fuel (typeName rt) Output info'
             else Some info'
         | None \<Rightarrow> Some info'))"

definition init :: "Service \<Rightarrow> nat \<Rightarrow> Interface \<Rightarrow> InterfaceInfo \<Rightarrow> InterfaceInfo option" where
  "init service fuel intf info = forEach (initMethod service fuel) (methods intf) info"

text \<open>The constructor: the six maps start empty and \<open>init\<close> runs once.\<close>

definition newInterfaceInfo :: "Service \<Rightarrow> nat \<Rightarrow> Interface \<Rightarrow> InterfaceInfo option" where
  "newInterfaceInfo service fuel intf = init service fuel intf emptyInfo"

text \<open>
  \<open>localeCompare\<close> is the host's collation. It is a parameter of the model: any comparator
  (a total preorder on strings; distinct strings may compare as equal).
  \<open>Array.prototype.sort\<close> is a stable sort, and the stable sort of a list under a
  comparator is unique, so the library's insertion sort computes it.
\<close>

definition jsSort :: "'a comparator \<Rightarrow> 'a list \<Rightarrow> 'a list" where
  "jsSort cmp xs = Sorting_Algorithms.sort cmp xs"

text \<open>
  \<open>new Set([...a.keys(), ...b.keys()])\<close>: the keys in order, the first occurrence of
  each kept.
\<close>

definition keySet :: "string list \<Rightarrow> string list" where
  "keySet ks = rev (remdups (rev ks))"

text \<open>
  The merged getters: the key set of both maps, sorted, each name mapped to the input
  entry or else the output entry (\<open>a.get(name) ?? b.get(name)!\<close>). Every name is a key of
  one of the two maps, so the branch where both lookups miss is never taken.
\<close>

definition mergedView :: "string comparator \<Rightarrow> 'v jsmap \<Rightarrow> 'v jsmap \<Rightarrow> 'v list" where
  "mergedView localeCompare inp out =
     concat (map (\<lambda>name. case map_get inp name of
                            Some v \<Rightarrow> [v]
                          | None \<Rightarrow> (case map_get out name of Some v \<Rightarrow> [v] | None \<Rightarrow> []))
       (jsSort localeCompare (keySet (map_keys inp @ map_keys out))))"

definition get_types :: "string comparator \<Rightarrow> InterfaceInfo \<Rightarrow> Type list" where
  "get_types localeCompare info =
     mergedView localeCompare (priv_inputTypes info) (priv_outputTypes info)"

definition get_inputTypes :: "string comparator \<Rightarrow> InterfaceInfo \<Rightarrow> Type list" where
  "get_inputTypes localeCompare info =
     jsSort (Comparator.key Type.name localeCompare) (map_values (priv_inputTypes info))"

definition get_outputTypes :: "string comparator \<Rightarrow> InterfaceInfo \<Rightarrow> Type list" where
  "get_outputTypes localeCompare info =
     jsSort (Comparator.key Type.name localeCompare) (map_values (priv_outputTypes info))"

definition get_unions :: "string comparator \<Rightarrow> InterfaceInfo \<Rightarrow> Union list" where
  "get_unions localeCompare info =
     mergedView localeCompare (priv_inputUnions info) (priv_outputUnions info)"

definition get_inputUnions :: "string comparator \<Rightarrow> InterfaceInfo \<Rightarrow> Union list" where
  "get_inputUnions localeCompare info =
     jsSort (Comparator.key Union.name localeCompare) (map_values (priv_inputUnions info))"

definition get_outputUnions :: "string comparator \<Rightarrow> InterfaceInfo \<Rightarrow> Union list" where
  "get_outputUnions localeCompare info =
     jsSort (Comparator.key Union.name localeCompare) (map_values (priv_outputUnions info))"

definition get_enums :: "string comparator \<Rightarrow> InterfaceInfo \<Rightarrow> Enum list" where
  "get_enums localeCompare info =
     mergedView localeCompare (priv_inputEnums info) (priv_outputEnums info)"

section \<open>Reachability in the type graph\<close>

text \<open>
  What \<open>traverse\<close> follows from a name: the non-primitive properties of the Type it
  resolves to, or else the members of the Union it resolves to. An Enum and an unresolved
  name lead nowhere.
\<close>

definition references :: "Service \<Rightarrow> string \<Rightarrow> string list" where
  "references service tyName =
    (case getTypeByName service tyName of
       Some ty \<Rightarrow> map typeName (filter (\<lambda>prop. \<not> isPrimitive prop) (properties ty))
     | None \<Rightarrow>
        (case getUnionByName service tyName of
           Some un \<Rightarrow> map typeName (members un)
         | None \<Rightarrow> []))"

definition resolves :: "Service \<Rightarrow> string \<Rightarrow> bool" where
  "resolves service tyName =
    (getTypeByName service tyName \<noteq> None \<or> getUnionByName service tyName \<noteq> None
      \<or> getEnumByName service tyName \<noteq> None)"

inductive reachable :: "Service \<Rightarrow> string set \<Rightarrow> string \<Rightarrow> bool"
  for service :: Service and roots :: "string set" where
  root: "n \<in> roots \<Longrightarrow> reachable service roots n"
| step: "reachable service roots m \<Longrightarrow> n \<in> set (references service m)
          \<Longrightarrow> reachable service roots n"

text \<open>The names \<open>init\<close> starts from: every parameter, and every non-primitive return type.\<close>

definition inputRoots :: "Interface \<Rightarrow> string set" where
  "inputRoots intf = {typeName param | param method.
      method \<in> set (methods intf) \<and> param \<in> set (parameters method)}"

definition outputRoots :: "Interface \<Rightarrow> string set" where
  "outputRoots intf = {typeName rt | rt method.
      method \<in> set (methods intf) \<and> returnType method = Some rt \<and> \<not> isPrimitive rt}"

definition modeRoots :: "mode \<Rightarrow> Interface \<Rightarrow> string set" where
  "modeRoots mode intf = (if mode = Input then inputRoots intf else outputRoots intf)"

text \<open>The entries of the maps agree with the Service, under the priority of \<open>traverse\<close>.\<close>

definition typesOk :: "Service \<Rightarrow> Type jsmap \<Rightarrow> bool" where
  "typesOk service m =
    (distinct (map fst m) \<and> (\<forall>(k, v) \<in> set m. getTypeByName service k = Some v))"

definition unionsOk :: "Service \<Rightarrow> Union jsmap \<Rightarrow> bool" where
  "unionsOk service m =
    (distinct (map fst m) \<and>
     (\<forall>(k, v) \<in> set m. getTypeByName service k = None \<and> getUnionByName service k = Some v))"

definition enumsOk :: "Service \<Rightarrow> Enum jsmap \<Rightarrow> bool" where
  "enumsOk service m =
    (distinct (map fst m) \<and>
     (\<forall>(k, v) \<in> set m. getTypeByName service k = None \<and> getUnionByName service k = None
        \<and> getEnumByName service k = Some v))"

definition infoOk :: "Service \<Rightarrow> InterfaceInfo \<Rightarrow> bool" where
  "infoOk service info =
    (typesOk service (priv_inputTypes info) \<and> typesOk service (priv_outputTypes info) \<and>
     unionsOk service (priv_inputUnions info) \<and> unionsOk service (priv_outputUnions info) \<and>
     enumsOk service (priv_inputEnums info) \<and> enumsOk service (priv_outputEnums info))"

text \<open>
  What one run of \<open>traverse\<close> (or a loop of runs) from the names \<open>roots\<close> does to the
  maps of its mode: the visited names only grow, every root that resolves is visited, and
  every newly visited name is reachable from the roots and has all its resolving
  references visited; the maps keep agreeing with the Service.
\<close>

definition otherMode :: "mode \<Rightarrow> mode" where
  "otherMode mode = (if mode = Input then Output else Input)"

definition modeMaps :: "mode \<Rightarrow> InterfaceInfo \<Rightarrow> Type jsmap \<times> Union jsmap \<times> Enum jsmap" where
  "modeMaps mode info =
    (if mode = Input then (priv_inputTypes info, priv_inputUnions info, priv_inputEnums info)
     else (priv_outputTypes info, priv_outputUnions info, priv_outputEnums info))"

definition stepOk :: "Service \<Rightarrow> mode \<Rightarrow> string set \<Rightarrow> InterfaceInfo \<Rightarrow> InterfaceInfo \<Rightarrow> bool" where
  "stepOk service mode roots info info' =
    ((\<forall>n. visited mode info n \<longrightarrow> visited mode info' n) \<and>
     (\<forall>r \<in> roots. resolves service r \<longrightarrow> visited mode info' r) \<and>
     (\<forall>x. visited mode info' x \<and> \<not> visited mode info x \<longrightarrow>
        reachable service roots x \<and>
        (\<forall>y \<in> set (references service x). resolves service y \<longrightarrow> visited mode info' y)) \<and>
     (infoOk service info \<longrightarrow> infoOk service info'))"

section \<open>The document renderer (readme-factory.ts)\<close>

text \<open>
  The functions the renderer imports from other packages are parameters of the model: the
  casing functions of \<open>case\<close>, the name factory of \<open>@basketry/typescript\<close>, and
  \<open>isRequired\<close> and \<open>warning\<close> of \<open>basketry\<close> (the latter with the package descriptor
  and the options it is given), together with the collation behind \<open>localeCompare\<close>.
  \<open>objectPrototype\<close> stands for the properties that every plain object of the host
  inherits (\<open>constructor\<close>, \<open>toString\<close>, ...): for the name of such a property, the
  text that a template literal gives for it.
\<close>

record Externals =
  localeCompare :: "string comparator"
  pascal :: "string \<Rightarrow> string"
  title :: "string \<Rightarrow> string"
  buildInterfaceName :: "Interface \<Rightarrow> string"
  buildMethodName :: "Method \<Rightarrow> string"
  buildParameterName :: "Parameter \<Rightarrow> string"
  buildPropertyName :: "Property \<Rightarrow> string"
  nf_buildTypeName :: "TypedValue \<Rightarrow> string"
  isRequired :: "Property \<Rightarrow> bool"
  warning :: "Service \<Rightarrow> string list"
  objectPrototype :: "string \<Rightarrow> string option"

subsection \<open>String helpers of the host language\<close>

text \<open>
  \<open>toLocaleLowerCase\<close> on the letters \<open>A\<close> to \<open>Z\<close>; every other character is left as
  it is.
\<close>

definition toLowerChar :: "char \<Rightarrow> char" where
  "toLowerChar c =
    (if CHR ''A'' \<le> c \<and> c \<le> CHR ''Z'' then char_of (of_char c + (32::nat)) else c)"

definition toLocaleLowerCase :: "string \<Rightarrow> string" where
  "toLocaleLowerCase s = map toLowerChar s"

text \<open>\<open>parts.join(sep)\<close>.\<close>

fun join :: "string \<Rightarrow> string list \<Rightarrow> string" where
  "join sep [] = []"
| "join sep [x] = x"
| "join sep (x # y # ys) = x @ sep @ join sep (y # ys)"

text \<open>\<open>s.split(' ').join('-')\<close>: every space becomes a hyphen.\<close>

definition spacesToHyphens :: "string \<Rightarrow> string" where
  "spacesToHyphens s = map (\<lambda>c. if c = CHR '' '' then CHR ''-'' else c) s"

definition endsWith :: "string \<Rightarrow> string \<Rightarrow> bool" where
  "endsWith s suffix =
    (length suffix \<le> length s \<and> drop (length s - length suffix) s = suffix)"

definition anchor :: "string \<Rightarrow> string" where
  "anchor nm = ''#'' @ spacesToHyphens (toLocaleLowerCase nm)"

subsection \<open>The builder\<close>

definition sortParameters :: "Externals \<Rightarrow> Parameter list \<Rightarrow> Parameter list" where
  "sortParameters ext params = jsSort (Comparator.key Property.name (localeCompare ext)) params"

definition Builder_methods :: "Externals \<Rightarrow> Interface \<Rightarrow> Method list" where
  "Builder_methods ext intf =
    jsSort (Comparator.key Method.name (localeCompare ext)) (methods intf)"

definition Builder_types :: "Externals \<Rightarrow> Service \<Rightarrow> nat \<Rightarrow> Interface \<Rightarrow> Type list option" where
  "Builder_types ext service fuel intf =
    (case newInterfaceInfo service fuel intf of
       None \<Rightarrow> None
     | Some interfaceInfo \<Rightarrow>
         Some (jsSort (Comparator.key Type.name (localeCompare ext))
                 (get_types (localeCompare ext) interfaceInfo)))"

definition Builder_enums :: "Externals \<Rightarrow> Service \<Rightarrow> nat \<Rightarrow> Interface \<Rightarrow> Enum list option" where
  "Builder_enums ext service fuel intf =
    (case newInterfaceInfo service fuel intf of
       None \<Rightarrow> None
     | Some interfaceInfo \<Rightarrow>
         Some (jsSort (Comparator.key Enum.name (localeCompare ext))
                 (get_enums (localeCompare ext) interfaceInfo)))"

text \<open>
  \<open>Builder.buildTypeName\<close>: the name factory's name, without a trailing \<open>[]\<close> when
  \<open>skipArrayify\<close> is set.
\<close>

definition buildTypeName :: "Externals \<Rightarrow> TypedValue \<Rightarrow> bool \<Rightarrow> string" where
  "buildTypeName ext ty skipArrayify =
    (let fullyQualifiedName = nf_buildTypeName ext ty in
     if endsWith fullyQualifiedName ''[]'' \<and> skipArrayify
     then take (length fullyQualifiedName - 2) fullyQualifiedName
     else fullyQualifiedName)"

text \<open>The \<open>switch\<close> over the primitive names; \<open>None\<close> is \<open>uri\<close> left \<open>undefined\<close>.\<close>

definition primitiveUri :: "string \<Rightarrow> string option" where
  "primitiveUri tyName =
    (if tyName = ''string''
     then Some ''https://developer.mozilla.org/en-US/docs/Web/JavaScript/Data_structures#string_type''
     else if tyName \<in> {''number'', ''integer'', ''long'', ''float'', ''double''}
     then Some ''https://developer.mozilla.org/en-US/docs/Web/JavaScript/Data_structures#number_type''
     else if tyName = ''boolean''
     then Some ''https://developer.mozilla.org/en-US/docs/Web/JavaScript/Data_structures#boolean_type''
     else if tyName \<in> {''date'', ''date-time''}
     then Some ''https://developer.mozilla.org/en-US/docs/Web/JavaScript/Reference/Global_Objects/Date''
     else if tyName = ''null''
     then Some ''https://developer.mozilla.org/en-US/docs/Web/JavaScript/Data_structures#null_type''
     else None)"

text \<open>The rendering of a reference that is not a union (the part after \<open>if (union)\<close>).\<close>

definition plainLinkedTypeName :: "Externals \<Rightarrow> TypedValue \<Rightarrow> string" where
  "plainLinkedTypeName ext param =
    (let tyName = buildTypeName ext param True;
         arr = (if isArray param then ''[]'' else '''') in
     if isPrimitive param then
       (case primitiveUri (typeName param) of
          Some uri \<Rightarrow> ''[&lt;'' @ tyName @ arr @ ''&gt;]('' @ uri @ '')''
        | None \<Rightarrow> ''&lt;'' @ tyName @ arr @ ''&gt;'')
     else ''[&lt;'' @ tyName @ arr @ ''&gt;]('' @ anchor tyName @ '')'')"

text \<open>
  \<open>buildLinkedTypeName\<close> calls itself on every member of a union and has no guard of its
  own, so it takes the available depth as \<open>fuel\<close>, like \<open>traverse\<close>; \<open>those\<close> is the
  \<open>map\<close> over the members, which has a result when every member has one.
\<close>

fun buildLinkedTypeName :: "Externals \<Rightarrow> Service \<Rightarrow> nat \<Rightarrow> TypedValue \<Rightarrow> string option" where
  "buildLinkedTypeName ext service 0 param = None"
| "buildLinkedTypeName ext service (Suc fuel) param =
    (case getUnionByName service (typeName param) of
       Some un \<Rightarrow>
         (case those (map (buildLinkedTypeName ext service fuel) (members un)) of
            None \<Rightarrow> None
          | Some ms \<Rightarrow>
              Some (let mems = join '' | '' ms in
                    if isArray param then ''('' @ mems @ '')[]'' else mems))
     | None \<Rightarrow> Some (plainLinkedTypeName ext param))"

fun buildRules :: "ValidationRule list \<Rightarrow> string list" where
  "buildRules [] = []"
| "buildRules (rule # rs) =
    (case rule of
       ArrayMaxItems mx \<Rightarrow> [''  - Max array length: `'' @ mx @ ''`'']
     | ArrayMinItems mn \<Rightarrow> [''  - Min array length: `'' @ mn @ ''`'']
     | ArrayUniqueItems \<Rightarrow> [''  - Values must be unique'']
     | NumberGT v \<Rightarrow> [''  - Must be greater than `'' @ v @ ''`'']
     | NumberGTE v \<Rightarrow> [''  - Must be greater than or equal to `'' @ v @ ''`'']
     | NumberLT v \<Rightarrow> [''  - Must be less than `'' @ v @ ''`'']
     | NumberLTE v \<Rightarrow> [''  - Must be less than or equal to `'' @ v @ ''`'']
     | NumberMultipleOf v \<Rightarrow> [''  - Must be a multiple of `'' @ v @ ''`'']
     | StringMaxLength len \<Rightarrow> [''  - Max length: `'' @ len @ ''`'']
     | StringMinLength len \<Rightarrow> [''  - Min length: `'' @ len @ ''`'']
     | StringPattern pattern \<Rightarrow> [''  - Must match pattern: `'' @ pattern @ ''`'']
     | OtherRule other \<Rightarrow> [])
    @ buildRules rs"

definition buildParameterDescription :: "Description option \<Rightarrow> string" where
  "buildParameterDescription d =
    (case d of
       None \<Rightarrow> ''''
     | Some (Multi ls) \<Rightarrow> '' - '' @ join '' '' ls
     | Some (Single l) \<Rightarrow> '' - '' @ l)"

definition buildParameter :: "Externals \<Rightarrow> Service \<Rightarrow> nat \<Rightarrow> Parameter \<Rightarrow> string list option" where
  "buildParameter ext service fuel param =
    do {
      linked \<leftarrow> buildLinkedTypeName ext service fuel (TypedValue.truncate param);
      Some ((''- `'' @ buildParameterName ext param @ ''` '' @ linked
              @ (if isRequired ext param then '''' else '' (optional)'')
              @ buildParameterDescription (Property.description param))
            # buildRules (rules param))
    }"

definition buildProperty :: "Externals \<Rightarrow> Service \<Rightarrow> nat \<Rightarrow> Property \<Rightarrow> string list option" where
  "buildProperty ext service fuel prop =
    do {
      linked \<leftarrow> buildLinkedTypeName ext service fuel (TypedValue.truncate prop);
      Some ((''- `'' @ buildPropertyName ext prop @ ''` '' @ linked
              @ (if isRequired ext prop then '''' else '' (optional)'')
              @ buildParameterDescription (Property.description prop))
            # buildRules (rules prop))
    }"

definition buildMethodDefinition :: "Externals \<Rightarrow> Method \<Rightarrow> string" where
  "buildMethodDefinition ext method =
    (let hasRequiredParams = list_ex (isRequired ext) (parameters method);
         params =
           (if parameters method \<noteq> []
            then ''({''
                 @ join '', ''
                     (map (\<lambda>param. buildParameterName ext param
                                    @ (if isRequired ext param then '''' else ''?''))
                        (sortParameters ext (parameters method)))
                 @ ''}'' @ (if hasRequiredParams then '''' else '' | undefined'') @ '')''
            else '''')
     in buildMethodName ext method @ params)"

text \<open>The lines that render a description below a heading (methods and types).\<close>

definition descriptionLines :: "Description option \<Rightarrow> string list" where
  "descriptionLines d =
    (case d of
       Some (Multi ls) \<Rightarrow> concat (map (\<lambda>l. ['''', l]) ls)
     | Some (Single l) \<Rightarrow> ['''', l]
     | None \<Rightarrow> [])"

text \<open>The block of a method's parameters, and the \<open>Returns:\<close> line.\<close>

definition parameterLines :: "Externals \<Rightarrow> Service \<Rightarrow> nat \<Rightarrow> Method \<Rightarrow> string list option" where
  "parameterLines ext service fuel method =
    (if parameters method \<noteq> []
     then map_option (\<lambda>ls. '''' # concat ls)
            (those (map (buildParameter ext service fuel)
                      (sortParameters ext (parameters method))))
     else Some [])"

definition returnsLines :: "Externals \<Rightarrow> Service \<Rightarrow> nat \<Rightarrow> Method \<Rightarrow> string list option" where
  "returnsLines ext service fuel method =
    (case returnType method of
       Some rt \<Rightarrow>
         map_option
           (\<lambda>linked. ['''', ''Returns: '' @ linked @ (if isArray rt then ''[]'' else '''')])
           (buildLinkedTypeName ext service fuel rt)
     | None \<Rightarrow> Some [])"

definition buildMethodDocs :: "Externals \<Rightarrow> Service \<Rightarrow> nat \<Rightarrow> Method \<Rightarrow> string list option" where
  "buildMethodDocs ext service fuel method =
    do {
      params \<leftarrow> parameterLines ext service fuel method;
      returns \<leftarrow> returnsLines ext service fuel method;
      Some ([''### '' @ buildMethodName ext method, '''',
             ''`'' @ buildMethodDefinition ext method @ ''`'']
            @ params @ returns @ descriptionLines (Method.description method) @ [''''])
    }"

definition buildInterfaceDescription :: "Interface \<Rightarrow> string list" where
  "buildInterfaceDescription intf =
    (case Interface.description intf of
       Some (Multi paras) \<Rightarrow> concat (map (\<lambda>para. [para, '''']) paras)
     | Some (Single para) \<Rightarrow> [para, '''']
     | None \<Rightarrow> [])"

text \<open>The block of a type's properties, and the block of its map properties.\<close>

definition propertyLines :: "Externals \<Rightarrow> Service \<Rightarrow> nat \<Rightarrow> Type \<Rightarrow> string list option" where
  "propertyLines ext service fuel ty =
    (if properties ty \<noteq> []
     then map_option (\<lambda>ls. '''' # concat ls)
            (those (map (buildProperty ext service fuel) (properties ty)))
     else Some [])"

definition mapPropertiesLines :: "Externals \<Rightarrow> Service \<Rightarrow> nat \<Rightarrow> Type \<Rightarrow> string list option" where
  "mapPropertiesLines ext service fuel ty =
    (case mapProperties ty of
       Some mp \<Rightarrow>
         do {
           k \<leftarrow> buildLinkedTypeName ext service fuel (key mp);
           v \<leftarrow> buildLinkedTypeName ext service fuel (value mp);
           Some ['''', ''#### Map Properties'', '''', ''- Keys: '' @ k, ''- Values: '' @ v]
         }
     | None \<Rightarrow> Some [])"

definition buildTypeDocs :: "Externals \<Rightarrow> Service \<Rightarrow> nat \<Rightarrow> Type \<Rightarrow> string list option" where
  "buildTypeDocs ext service fuel ty =
    do {
      props \<leftarrow> propertyLines ext service fuel ty;
      mapProps \<leftarrow> mapPropertiesLines ext service fuel ty;
      Some ([''### '' @ pascal ext (Type.name ty), '''',
             ''`'' @ pascal ext (Type.name ty) @ ''`'']
            @ descriptionLines (Type.description ty) @ props @ mapProps @ [''''])
    }"

text \<open>
  \<open>valueDescriptions?.[key]\<close> indexes a plain object: the object's own entry for the
  key, or else the property of that name that the object inherits; an own entry is used
  when it is not the empty string, an inherited property always.
\<close>

definition valueDescriptionSuffix :: "Externals \<Rightarrow> Enum \<Rightarrow> string \<Rightarrow> string" where
  "valueDescriptionSuffix ext e k =
    (case valueDescriptions e of
       None \<Rightarrow> ''''
     | Some ds \<Rightarrow>
        (case map_of ds k of
           Some vd \<Rightarrow> if vd \<noteq> '''' then '' - '' @ vd else ''''
         | None \<Rightarrow>
            (case objectPrototype ext k of
               Some inherited \<Rightarrow> '' - '' @ inherited
             | None \<Rightarrow> '''')))"

definition buildEnumDocs :: "Externals \<Rightarrow> Enum \<Rightarrow> string list" where
  "buildEnumDocs ext e =
    [''### '' @ pascal ext (Enum.name e), '''', ''`'' @ pascal ext (Enum.name e) @ ''`'']
    @ (case enumDescription e of
         Some d \<Rightarrow> if d \<noteq> '''' then ['''', d] else []
       | None \<Rightarrow> [])
    @ (if values e \<noteq> []
       then '''' # map (\<lambda>v. ''- `'' @ v @ ''`'' @ valueDescriptionSuffix ext e v) (values e)
       else [])
    @ ['''']"

text \<open>The three entry shapes of the table of contents.\<close>

definition tocMethod :: "Externals \<Rightarrow> Method \<Rightarrow> string" where
  "tocMethod ext method =
    ''  - ['' @ buildMethodName ext method @ '']('' @ anchor (buildMethodName ext method) @ '')''"

definition tocType :: "Externals \<Rightarrow> Type \<Rightarrow> string" where
  "tocType ext ty =
    ''  - ['' @ pascal ext (Type.name ty) @ '']('' @ anchor (Type.name ty) @ '')''"

definition tocEnum :: "Externals \<Rightarrow> Enum \<Rightarrow> string" where
  "tocEnum ext e =
    ''  - ['' @ pascal ext (Enum.name e) @ '']('' @ anchor (Enum.name e) @ '')''"

definition tocLines :: "Externals \<Rightarrow> Method list \<Rightarrow> Type list \<Rightarrow> Enum list \<Rightarrow> string list" where
  "tocLines ext ms tys ens =
    (if ms \<noteq> [] then ''- Methods'' # map (tocMethod ext) ms else [])
    @ (if tys \<noteq> [] then ''- Types'' # map (tocType ext) tys else [])
    @ (if ens \<noteq> [] then ''- Enums'' # map (tocEnum ext) ens else [])"

definition buildToc :: "Externals \<Rightarrow> Service \<Rightarrow> nat \<Rightarrow> Interface \<Rightarrow> string list option" where
  "buildToc ext service fuel intf =
    do {
      tys \<leftarrow> Builder_types ext service fuel intf;
      ens \<leftarrow> Builder_enums ext service fuel intf;
      Some (tocLines ext (Builder_methods ext intf) tys ens)
    }"

text \<open>
  The lines before the table of contents, and a block behind it: when the list of its
  entities is not empty, its heading and the documents of the entities.
\<close>

definition headLines :: "Externals \<Rightarrow> Service \<Rightarrow> Interface \<Rightarrow> string list" where
  "headLines ext service intf =
    [''<!--''] @ warning ext service @ [''--->'']
    @ ['''', ''# '' @ title ext (buildInterfaceName ext intf), '''']
    @ buildInterfaceDescription intf"

definition sectionLines :: "string \<Rightarrow> 'a list \<Rightarrow> string list list \<Rightarrow> string list" where
  "sectionLines heading entities docs =
    (if entities \<noteq> [] then [heading, ''''] @ concat docs else [])"

definition buildInterfaceDocs :: "Externals \<Rightarrow> Service \<Rightarrow> nat \<Rightarrow> Interface \<Rightarrow> string list option" where
  "buildInterfaceDocs ext service fuel intf =
    do {
      tys \<leftarrow> Builder_types ext service fuel intf;
      ens \<leftarrow> Builder_enums ext service fuel intf;
      toc \<leftarrow> buildToc ext service fuel intf;
      methodDocs \<leftarrow> those (map (buildMethodDocs ext service fuel) (Builder_methods ext intf));
      typeDocs \<leftarrow> those (map (buildTypeDocs ext service fuel) tys);
      Some (headLines ext service intf
            @ toc
            @ ['''']
            @ sectionLines ''## Methods'' (Builder_methods ext intf) methodDocs
            @ sectionLines ''## Types'' tys typeDocs
            @ sectionLines ''## Enums'' ens (map (buildEnumDocs ext) ens))
    }"

text \<open>\<open>build\<close>: one document per interface of the service.\<close>

definition build :: "Externals \<Rightarrow> Service \<Rightarrow> nat \<Rightarrow> string list option list" where
  "build ext service fuel = map (buildInterfaceDocs ext service fuel) (interfaces service)"

section \<open>Auxiliary notions for the analysis of the resolver\<close>

text \<open>The names that are keys of one of the three maps of a mode.\<close>

definition keysOf :: "mode \<Rightarrow> InterfaceInfo \<Rightarrow> string set" where
  "keysOf mode info = (case modeMaps mode info of (t, u, e) \<Rightarrow>
      set (map fst t) \<union> set (map fst u) \<union> set (map fst e))"

text \<open>The names \<open>init\<close> starts from for one method.\<close>

definition methodRoots :: "mode \<Rightarrow> Method \<Rightarrow> string set" where
  "methodRoots mode method =
    (if mode = Input then typeName ` set (parameters method)
     else (case returnType method of
             Some rt \<Rightarrow> if \<not> isPrimitive rt then {typeName rt} else {}
           | None \<Rightarrow> {}))"

text \<open>
  The names that resolve and are not yet visited: each call of \<open>traverse\<close> that goes past
  its guards removes one, which bounds the depth of the recursion.
\<close>

definition unvisited :: "Service \<Rightarrow> mode \<Rightarrow> InterfaceInfo \<Rightarrow> string set" where
  "unvisited svc mode info = {x. resolves svc x \<and> \<not> visited mode info x}"

text \<open>A map whose values carry their key as name.\<close>

definition named :: "('v \<Rightarrow> string) \<Rightarrow> 'v jsmap \<Rightarrow> bool" where
  "named nm m = (\<forall>(k, v) \<in> set m. nm v = k)"

section \<open>Notions of the specification used to state the renderer's properties\<close>

text \<open>
  The table of validation-rule bullets as the specification gives it (section 4.3): for
  each recognised rule the fixed text and the parameter that is substituted behind it (the
  array-unique-items bullet has none); \<open>None\<close> for a rule that is not in the table.
\<close>

definition specTemplate :: "ValidationRule \<Rightarrow> (string \<times> string option) option" where
  "specTemplate rule =
    (case rule of
       ArrayMaxItems mx \<Rightarrow> Some (''Max array length: '', Some mx)
     | ArrayMinItems mn \<Rightarrow> Some (''Min array length: '', Some mn)
     | ArrayUniqueItems \<Rightarrow> Some (''Values must be unique'', None)
     | NumberGT v \<Rightarrow> Some (''Must be greater than '', Some v)
     | NumberGTE v \<Rightarrow> Some (''Must be greater than or equal to '', Some v)
     | NumberLT v \<Rightarrow> Some (''Must be less than '', Some v)
     | NumberLTE v \<Rightarrow> Some (''Must be less than or equal to '', Some v)
     | NumberMultipleOf v \<Rightarrow> Some (''Must be a multiple of '', Some v)
     | StringMaxLength len \<Rightarrow> Some (''Max length: '', Some len)
     | StringMinLength len \<Rightarrow> Some (''Min length: '', Some len)
     | StringPattern pattern \<Rightarrow> Some (''Must match pattern: '', Some pattern)
     | OtherRule other \<Rightarrow> None)"

text \<open>The bullet text of the specification: the fixed text with the parameter behind it.\<close>

definition specBullet :: "ValidationRule \<Rightarrow> string option" where
  "specBullet rule =
    (case specTemplate rule of
       None \<Rightarrow> None
     | Some (text, None) \<Rightarrow> Some text
     | Some (text, Some p) \<Rightarrow> Some (text @ p))"





section \<open>Example inputs\<close>

text \<open>
  An instance of the external functions, to run the model on concrete inputs: byte-wise
  lexicographic collation, a Pascal casing that drops the separators space, hyphen and
  underscore and capitalises the letter after each, names used as they are, and
  \<open>isRequired\<close> as the presence of a rule with id \<open>required\<close>.
\<close>

definition toUpperChar :: "char \<Rightarrow> char" where
  "toUpperChar c =
    (if CHR ''a'' \<le> c \<and> c \<le> CHR ''z'' then char_of (of_char c - (32::nat)) else c)"

fun pascalWords :: "bool \<Rightarrow> string \<Rightarrow> string" where
  "pascalWords up [] = []"
| "pascalWords up (c # cs) =
    (if c = CHR '' '' \<or> c = CHR ''-'' \<or> c = CHR ''_'' then pascalWords True cs
     else (if up then toUpperChar c else c) # pascalWords False cs)"

definition examplePascal :: "string \<Rightarrow> string" where
  "examplePascal s = pascalWords True s"

definition exampleExt :: Externals where
  "exampleExt = \<lparr>
     localeCompare = default,
     pascal = examplePascal,
     title = (\<lambda>s. s),
     buildInterfaceName = Interface.name,
     buildMethodName = Method.name,
     buildParameterName = Property.name,
     buildPropertyName = Property.name,
     nf_buildTypeName = (\<lambda>tv. examplePascal (typeName tv) @ (if isArray tv then ''[]'' else '''')),
     isRequired = (\<lambda>p. OtherRule ''required'' \<in> set (rules p)),
     warning = (\<lambda>service. [''generated'']),
     objectPrototype = (\<lambda>k. if k = ''constructor'' then Some ''function Object() { [native code] }''
                            else if k = ''toString'' then Some ''function toString() { [native code] }''
                            else None) \<rparr>"

definition mkRef :: "string \<Rightarrow> TypedValue" where
  "mkRef tyName = \<lparr> typeName = tyName, isPrimitive = False, isArray = False, rules = [] \<rparr>"

definition mkPrim :: "string \<Rightarrow> TypedValue" where
  "mkPrim tyName = \<lparr> typeName = tyName, isPrimitive = True, isArray = False, rules = [] \<rparr>"

definition mkProp :: "string \<Rightarrow> string \<Rightarrow> Property" where
  "mkProp nm tyName = \<lparr> typeName = tyName, isPrimitive = False, isArray = False, rules = [],
                       Property.name = nm, Property.description = None \<rparr>"

definition mkPrimProp :: "string \<Rightarrow> string \<Rightarrow> Property" where
  "mkPrimProp nm tyName = \<lparr> typeName = tyName, isPrimitive = True, isArray = False, rules = [],
                           Property.name = nm, Property.description = None \<rparr>"

definition mkType :: "string \<Rightarrow> Property list \<Rightarrow> Type" where
  "mkType nm props = \<lparr> Type.name = nm, Type.description = None, properties = props,
                        mapProperties = None \<rparr>"

definition mkMethod :: "string \<Rightarrow> Parameter list \<Rightarrow> ReturnType option \<Rightarrow> Method" where
  "mkMethod nm params rt = \<lparr> Method.name = nm, parameters = params, returnType = rt,
                              Method.description = None \<rparr>"

definition mkInterface :: "string \<Rightarrow> Method list \<Rightarrow> Interface" where
  "mkInterface nm ms = \<lparr> Interface.name = nm, Interface.description = None, methods = ms \<rparr>"

text \<open>A type that refers to itself, and an interface with a parameter of that type.\<close>

definition nodeType :: Type where
  "nodeType = mkType ''Node'' [mkProp ''next'' ''Node'']"

definition nodeInterface :: Interface where
  "nodeInterface = mkInterface ''graph'' [mkMethod ''visit'' [mkProp ''node'' ''Node''] None]"

definition nodeService :: Service where
  "nodeService = \<lparr> interfaces = [nodeInterface], types = [nodeType], enums = [], unions = [] \<rparr>"

text \<open>\<open>create(input: Widget): WidgetReceipt\<close>, the two types sharing nothing.\<close>

definition widgetType :: Type where
  "widgetType = mkType ''Widget'' [mkPrimProp ''id'' ''string'']"

definition receiptType :: Type where
  "receiptType = mkType ''WidgetReceipt'' [mkPrimProp ''at'' ''date'']"

definition widgetInterface :: Interface where
  "widgetInterface =
     mkInterface ''widgets'' [mkMethod ''create'' [mkProp ''input'' ''Widget''] (Some (mkRef ''WidgetReceipt''))]"

definition widgetService :: Service where
  "widgetService = \<lparr> interfaces = [widgetInterface], types = [receiptType, widgetType],
                      enums = [], unions = [] \<rparr>"

text \<open>
  A service where \<open>X\<close> names both an Enum and a Union, and \<open>Y\<close> both a Type and an Enum.
\<close>

definition clashEnum :: Enum where
  "clashEnum = \<lparr> Enum.name = ''X'', values = [''a''], enumDescription = None,
                  valueDescriptions = None \<rparr>"

definition clashUnion :: Union where
  "clashUnion = \<lparr> Union.name = ''X'', members = [mkPrim ''string''] \<rparr>"

definition clashType :: Type where
  "clashType = mkType ''Y'' []"

definition clashEnumY :: Enum where
  "clashEnumY = \<lparr> Enum.name = ''Y'', values = [''b''], enumDescription = None,
                   valueDescriptions = None \<rparr>"

definition clashInterface :: Interface where
  "clashInterface =
     mkInterface ''clash'' [mkMethod ''take'' [mkProp ''x'' ''X'', mkProp ''y'' ''Y''] None]"

definition clashService :: Service where
  "clashService = \<lparr> interfaces = [clashInterface], types = [clashType],
                     enums = [clashEnum, clashEnumY], unions = [clashUnion] \<rparr>"

definition clashInfo :: InterfaceInfo where
  "clashInfo = emptyInfo\<lparr> priv_inputTypes := [(''Y'', clashType)],
                            priv_inputUnions := [(''X'', clashUnion)] \<rparr>"

definition widgetInfo :: InterfaceInfo where
  "widgetInfo = emptyInfo\<lparr> priv_inputTypes := [(''Widget'', widgetType)],
                             priv_outputTypes := [(''WidgetReceipt'', receiptType)] \<rparr>"

text \<open>\<open>echo(n: Node): Node\<close>: the same type on both sides.\<close>

definition echoInterface :: Interface where
  "echoInterface =
     mkInterface ''echo'' [mkMethod ''echo'' [mkProp ''n'' ''Node''] (Some (mkRef ''Node''))]"

definition echoService :: Service where
  "echoService = \<lparr> interfaces = [echoInterface], types = [nodeType], enums = [], unions = [] \<rparr>"

definition echoInfo :: InterfaceInfo where
  "echoInfo = emptyInfo\<lparr> priv_inputTypes := [(''Node'', nodeType)],
                           priv_outputTypes := [(''Node'', nodeType)] \<rparr>"



text \<open>Methods without parameters, with a required one, and with optional ones only.\<close>

definition requiredProp :: "string \<Rightarrow> string \<Rightarrow> Property" where
  "requiredProp nm tyName = \<lparr> typeName = tyName, isPrimitive = True, isArray = False,
       rules = [OtherRule ''required''], Property.name = nm, Property.description = None \<rparr>"

definition pingMethod :: Method where
  "pingMethod = mkMethod ''ping'' [] None"

definition createMethod :: Method where
  "createMethod = mkMethod ''create'' [mkPrimProp ''b'' ''string'', requiredProp ''a'' ''string''] None"

definition listMethod :: Method where
  "listMethod = mkMethod ''list'' [mkPrimProp ''limit'' ''integer''] None"






text \<open>A type whose name has a separator: \<open>get(): widget_receipt\<close>.\<close>

definition snakeType :: Type where
  "snakeType = mkType ''widget_receipt'' []"

definition snakeInterface :: Interface where
  "snakeInterface = mkInterface ''receipts'' [mkMethod ''get'' [] (Some (mkRef ''widget_receipt''))]"

definition snakeService :: Service where
  "snakeService = \<lparr> interfaces = [snakeInterface], types = [snakeType], enums = [],
                     unions = [] \<rparr>"





text \<open>
  An interface whose methods, types and enums are all declared against the alphabet:
  \<open>b(w: Widget): WidgetReceipt\<close> and \<open>a()\<close>, where \<open>Widget\<close> has the properties
  \<open>shape: Shape\<close> and \<open>color: Color\<close>.
\<close>

definition shapeEnum :: Enum where
  "shapeEnum = \<lparr> Enum.name = ''Shape'', values = [''round''], enumDescription = None,
                  valueDescriptions = None \<rparr>"

definition colorEnum :: Enum where
  "colorEnum = \<lparr> Enum.name = ''Color'', values = [''red''], enumDescription = None,
                  valueDescriptions = None \<rparr>"

definition orderWidget :: Type where
  "orderWidget = mkType ''Widget'' [mkProp ''shape'' ''Shape'', mkProp ''color'' ''Color'']"

definition orderInterface :: Interface where
  "orderInterface =
     mkInterface ''orders''
       [mkMethod ''b'' [mkProp ''w'' ''Widget''] (Some (mkRef ''WidgetReceipt'')),
        mkMethod ''a'' [] None]"

definition orderService :: Service where
  "orderService = \<lparr> interfaces = [orderInterface], types = [receiptType, orderWidget],
                     enums = [shapeEnum, colorEnum], unions = [] \<rparr>"

definition orderInfo :: InterfaceInfo where
  "orderInfo = emptyInfo\<lparr> priv_inputEnums := [(''Shape'', shapeEnum), (''Color'', colorEnum)],
                            priv_inputTypes := [(''Widget'', orderWidget)],
                            priv_outputTypes := [(''WidgetReceipt'', receiptType)] \<rparr>"

definition orderDoc :: "string list" where
  "orderDoc =
    [''<!--'', ''generated'', ''--->'', '''', ''# orders'', '''',
     ''- Methods'', ''  - [a](#a)'', ''  - [b](#b)'',
     ''- Types'', ''  - [Widget](#widget)'', ''  - [WidgetReceipt](#widgetreceipt)'',
     ''- Enums'', ''  - [Color](#color)'', ''  - [Shape](#shape)'', '''',
     ''## Methods'', '''',
     ''### a'', '''', ''`a`'', '''',
     ''### b'', '''', ''`b({w?} | undefined)`'', '''',
     ''- `w` [&lt;Widget&gt;](#widget) (optional)'', '''',
     ''Returns: [&lt;WidgetReceipt&gt;](#widgetreceipt)'', '''',
     ''## Types'', '''',
     ''### Widget'', '''', ''`Widget`'', '''',
     ''- `shape` [&lt;Shape&gt;](#shape) (optional)'',
     ''- `color` [&lt;Color&gt;](#color) (optional)'', '''',
     ''### WidgetReceipt'', '''', ''`WidgetReceipt`'', '''',
     ''- `at` [&lt;Date&gt;](https://developer.mozilla.org/en-US/docs/Web/JavaScript/Reference/Global_Objects/Date) (optional)'',
     '''',
     ''## Enums'', '''',
     ''### Color'', '''', ''`Color`'', '''', ''- `red`'', '''',
     ''### Shape'', '''', ''`Shape`'', '''', ''- `round`'', '''']"

section \<open>Properties of the closure resolver\<close>

subsection \<open>Maps, visited names and single steps\<close>

lemma map_set_fresh: "k \<notin> fst ` set m \<Longrightarrow> map_set m k v = m @ [(k, v)]"
  by (induction m k v rule: map_set.induct) auto

lemma map_set_keys: "fst ` set (map_set m k v) = insert k (fst ` set m)"
  by (induction m k v rule: map_set.induct) (auto simp: insert_commute)

lemma visited_iff: "visited mode info n \<longleftrightarrow> n \<in> keysOf mode info"
  by (cases mode) (auto simp: visited_def keysOf_def modeMaps_def map_has_def)

lemma otherMode_simps [simp]: "otherMode Input = Output" "otherMode Output = Input"
  by (simp_all add: otherMode_def)

lemma reachable_mono: "reachable svc R n \<Longrightarrow> R \<subseteq> R' \<Longrightarrow> reachable svc R' n"
  by (induction rule: reachable.induct) (auto intro: reachable.intros)

lemma stepOk_refl:
  "(\<And>r. r \<in> roots \<Longrightarrow> resolves svc r \<Longrightarrow> visited mode info r) \<Longrightarrow> stepOk svc mode roots info info"
  by (auto simp: stepOk_def)

lemma stepOk_trans:
  assumes ab: "stepOk svc mode R1 a b" and bc: "stepOk svc mode R2 b c"
  shows "stepOk svc mode (R1 \<union> R2) a c"
proof -
  have v1: "\<And>n. visited mode a n \<Longrightarrow> visited mode b n" using ab by (simp add: stepOk_def)
  have v2: "\<And>n. visited mode b n \<Longrightarrow> visited mode c n" using bc by (simp add: stepOk_def)
  have r1: "\<And>r. r \<in> R1 \<Longrightarrow> resolves svc r \<Longrightarrow> visited mode b r" using ab by (simp add: stepOk_def)
  have r2: "\<And>r. r \<in> R2 \<Longrightarrow> resolves svc r \<Longrightarrow> visited mode c r" using bc by (simp add: stepOk_def)
  have n1: "\<And>x. visited mode b x \<Longrightarrow> \<not> visited mode a x \<Longrightarrow>
      reachable svc R1 x \<and> (\<forall>y \<in> set (references svc x). resolves svc y \<longrightarrow> visited mode b y)"
    using ab by (simp add: stepOk_def)
  have n2: "\<And>x. visited mode c x \<Longrightarrow> \<not> visited mode b x \<Longrightarrow>
      reachable svc R2 x \<and> (\<forall>y \<in> set (references svc x). resolves svc y \<longrightarrow> visited mode c y)"
    using bc by (simp add: stepOk_def)
  have o1: "infoOk svc a \<Longrightarrow> infoOk svc b" using ab by (simp add: stepOk_def)
  have o2: "infoOk svc b \<Longrightarrow> infoOk svc c" using bc by (simp add: stepOk_def)
  have new: "reachable svc (R1 \<union> R2) x \<and>
      (\<forall>y \<in> set (references svc x). resolves svc y \<longrightarrow> visited mode c y)"
    if vc: "visited mode c x" and nva: "\<not> visited mode a x" for x
  proof (cases "visited mode b x")
    case True
    from n1 [OF True nva] have "reachable svc R1 x"
      and cl: "\<forall>y \<in> set (references svc x). resolves svc y \<longrightarrow> visited mode b y" by simp_all
    then have "reachable svc (R1 \<union> R2) x" by (auto intro: reachable_mono)
    moreover from cl v2 have "\<forall>y \<in> set (references svc x). resolves svc y \<longrightarrow> visited mode c y"
      by blast
    ultimately show ?thesis by simp
  next
    case False
    from n2 [OF vc False] have "reachable svc R2 x"
      and cl: "\<forall>y \<in> set (references svc x). resolves svc y \<longrightarrow> visited mode c y" by simp_all
    then have "reachable svc (R1 \<union> R2) x" by (auto intro: reachable_mono)
    with cl show ?thesis by simp
  qed
  show ?thesis
    unfolding stepOk_def
  proof (intro conjI allI impI ballI)
    fix n assume "visited mode a n" then show "visited mode c n" using v1 v2 by blast
  next
    fix r assume "r \<in> R1 \<union> R2" "resolves svc r"
    then show "visited mode c r" using r1 r2 v2 by blast
  next
    fix x assume "visited mode c x \<and> \<not> visited mode a x"
    then show "reachable svc (R1 \<union> R2) x" using new by blast
  next
    fix x y assume "visited mode c x \<and> \<not> visited mode a x" "y \<in> set (references svc x)" "resolves svc y"
    then show "visited mode c y" using new by blast
  next
    assume "infoOk svc a" then show "infoOk svc c" using o1 o2 by blast
  qed
qed

lemma forEach_stepOk:
  assumes "\<And>x a b. x \<in> set xs \<Longrightarrow> f x a = Some b \<Longrightarrow> stepOk svc mode (g x) a b"
    and "forEach f xs a = Some b"
  shows "stepOk svc mode (\<Union>x \<in> set xs. g x) a b"
  using assms
proof (induction xs arbitrary: a)
  case Nil
  then show ?case by (auto intro: stepOk_refl)
next
  case (Cons x xs)
  from Cons.prems(2) obtain a' where fa: "f x a = Some a'" and rest: "forEach f xs a' = Some b"
    by (auto split: option.splits)
  have 1: "stepOk svc mode (g x) a a'" using Cons.prems(1) fa by simp
  have 2: "stepOk svc mode (\<Union>x \<in> set xs. g x) a' b"
    using Cons.IH [OF _ rest] Cons.prems(1) by simp
  from stepOk_trans [OF 1 2] show ?case by simp
qed

lemma visited_setType: "visited mode (setType mode n ty info) x \<longleftrightarrow> visited mode info x \<or> x = n"
  by (cases mode) (auto simp: visited_iff keysOf_def modeMaps_def setType_def map_set_keys)

lemma visited_setUnion: "visited mode (setUnion mode n un info) x \<longleftrightarrow> visited mode info x \<or> x = n"
  by (cases mode) (auto simp: visited_iff keysOf_def modeMaps_def setUnion_def map_set_keys)

lemma visited_setEnum: "visited mode (setEnum mode n e info) x \<longleftrightarrow> visited mode info x \<or> x = n"
  by (cases mode) (auto simp: visited_iff keysOf_def modeMaps_def setEnum_def map_set_keys)

lemma other_setType: "modeMaps (otherMode mode) (setType mode n ty info) = modeMaps (otherMode mode) info"
  by (cases mode) (simp_all add: modeMaps_def setType_def)

lemma other_setUnion: "modeMaps (otherMode mode) (setUnion mode n un info) = modeMaps (otherMode mode) info"
  by (cases mode) (simp_all add: modeMaps_def setUnion_def)

lemma other_setEnum: "modeMaps (otherMode mode) (setEnum mode n e info) = modeMaps (otherMode mode) info"
  by (cases mode) (simp_all add: modeMaps_def setEnum_def)

lemma typesOk_set:
  "typesOk svc m \<Longrightarrow> n \<notin> fst ` set m \<Longrightarrow> getTypeByName svc n = Some ty \<Longrightarrow> typesOk svc (map_set m n ty)"
  by (auto simp: typesOk_def map_set_fresh)

lemma unionsOk_set:
  "unionsOk svc m \<Longrightarrow> n \<notin> fst ` set m \<Longrightarrow> getTypeByName svc n = None \<Longrightarrow>
   getUnionByName svc n = Some un \<Longrightarrow> unionsOk svc (map_set m n un)"
  by (auto simp: unionsOk_def map_set_fresh)

lemma enumsOk_set:
  "enumsOk svc m \<Longrightarrow> n \<notin> fst ` set m \<Longrightarrow> getTypeByName svc n = None \<Longrightarrow>
   getUnionByName svc n = None \<Longrightarrow> getEnumByName svc n = Some e \<Longrightarrow> enumsOk svc (map_set m n e)"
  by (auto simp: enumsOk_def map_set_fresh)

lemma infoOk_setType:
  "infoOk svc info \<Longrightarrow> \<not> visited mode info n \<Longrightarrow> getTypeByName svc n = Some ty \<Longrightarrow>
   infoOk svc (setType mode n ty info)"
  by (cases mode) (auto simp: infoOk_def setType_def visited_iff keysOf_def modeMaps_def intro!: typesOk_set)

lemma infoOk_setUnion:
  "infoOk svc info \<Longrightarrow> \<not> visited mode info n \<Longrightarrow> getTypeByName svc n = None \<Longrightarrow>
   getUnionByName svc n = Some un \<Longrightarrow> infoOk svc (setUnion mode n un info)"
  by (cases mode) (auto simp: infoOk_def setUnion_def visited_iff keysOf_def modeMaps_def intro!: unionsOk_set)

lemma infoOk_setEnum:
  "infoOk svc info \<Longrightarrow> \<not> visited mode info n \<Longrightarrow> getTypeByName svc n = None \<Longrightarrow>
   getUnionByName svc n = None \<Longrightarrow> getEnumByName svc n = Some e \<Longrightarrow> infoOk svc (setEnum mode n e info)"
  by (cases mode) (auto simp: infoOk_def setEnum_def visited_iff keysOf_def modeMaps_def intro!: enumsOk_set)

lemma reachable_via_references:
  "reachable svc (set (references svc n)) x \<Longrightarrow> reachable svc {n} x"
proof (induction rule: reachable.induct)
  case (root m)
  have "reachable svc {n} n" by (rule reachable.root) simp
  then show ?case using root by (rule reachable.step)
next
  case (step m k)
  then show ?case by (auto intro: reachable.step)
qed

lemma stepOk_mark:
  assumes nv: "\<not> visited mode info n"
    and res: "resolves svc n"
    and vis: "\<And>x. visited mode info1 x \<longleftrightarrow> visited mode info x \<or> x = n"
    and ok: "infoOk svc info \<Longrightarrow> infoOk svc info1"
    and rest: "stepOk svc mode (set (references svc n)) info1 info'"
  shows "stepOk svc mode {n} info info'"
proof -
  have v2: "\<And>x. visited mode info1 x \<Longrightarrow> visited mode info' x" using rest by (simp add: stepOk_def)
  have r2: "\<And>r. r \<in> set (references svc n) \<Longrightarrow> resolves svc r \<Longrightarrow> visited mode info' r"
    using rest by (simp add: stepOk_def)
  have n2: "\<And>x. visited mode info' x \<Longrightarrow> \<not> visited mode info1 x \<Longrightarrow>
      reachable svc (set (references svc n)) x \<and>
      (\<forall>y \<in> set (references svc x). resolves svc y \<longrightarrow> visited mode info' y)"
    using rest by (simp add: stepOk_def)
  have o2: "infoOk svc info1 \<Longrightarrow> infoOk svc info'" using rest by (simp add: stepOk_def)
  have new: "reachable svc {n} x \<and>
      (\<forall>y \<in> set (references svc x). resolves svc y \<longrightarrow> visited mode info' y)"
    if vc: "visited mode info' x" and nva: "\<not> visited mode info x" for x
  proof (cases "x = n")
    case True
    have "reachable svc {n} n" by (rule reachable.root) simp
    with True r2 show ?thesis by blast
  next
    case False
    with nva vis have "\<not> visited mode info1 x" by simp
    from n2 [OF vc this] show ?thesis by (auto intro: reachable_via_references)
  qed
  show ?thesis
    unfolding stepOk_def
  proof (intro conjI allI impI ballI)
    fix x assume "visited mode info x" then show "visited mode info' x" using vis v2 by blast
  next
    fix r assume "r \<in> {n}" "resolves svc r"
    then show "visited mode info' r" using vis v2 by blast
  next
    fix x assume "visited mode info' x \<and> \<not> visited mode info x"
    then show "reachable svc {n} x" using new by blast
  next
    fix x y assume "visited mode info' x \<and> \<not> visited mode info x" "y \<in> set (references svc x)" "resolves svc y"
    then show "visited mode info' y" using new by blast
  next
    assume "infoOk svc info" then show "infoOk svc info'" using ok o2 by blast
  qed
qed

lemma traverse_stepOk:
  "traverse svc fuel n mode info = Some info' \<Longrightarrow> stepOk svc mode {n} info info'"
proof (induction fuel arbitrary: n info info')
  case 0
  then show ?case by simp
next
  case (Suc fuel)
  show ?case
  proof (cases "visited mode info n")
    case True
    with Suc.prems have "info' = info" by simp
    with True show ?thesis by (auto intro: stepOk_refl)
  next
    case nv: False
    show ?thesis
    proof (cases "getTypeByName svc n")
      case (Some ty)
      let ?f = "\<lambda>prop i. if \<not> isPrimitive prop then traverse svc fuel (typeName prop) mode i else Some i"
      let ?g = "\<lambda>prop. if \<not> isPrimitive prop then {typeName prop} else {}"
      from Suc.prems nv Some
      have fe: "forEach ?f (properties ty) (setType mode n ty info) = Some info'" by simp
      have "stepOk svc mode (\<Union>x \<in> set (properties ty). ?g x) (setType mode n ty info) info'"
      proof (rule forEach_stepOk [OF _ fe])
        fix x a b assume "x \<in> set (properties ty)" and "?f x a = Some b"
        then show "stepOk svc mode (?g x) a b"
          using Suc.IH by (auto split: if_splits intro: stepOk_refl)
      qed
      moreover have "(\<Union>x \<in> set (properties ty). ?g x) = set (references svc n)"
        using Some by (auto simp: references_def)
      ultimately have rest: "stepOk svc mode (set (references svc n)) (setType mode n ty info) info'" by simp
      have res: "resolves svc n" using Some by (simp add: resolves_def)
      show ?thesis
        by (rule stepOk_mark [OF nv res _ _ rest])
           (simp_all add: visited_setType infoOk_setType nv Some)
    next
      case tnone: None
      show ?thesis
      proof (cases "getUnionByName svc n")
        case (Some un)
        let ?f = "\<lambda>member i. traverse svc fuel (typeName member) mode i"
        from Suc.prems nv tnone Some
        have fe: "forEach ?f (members un) (setUnion mode n un info) = Some info'" by simp
        have "stepOk svc mode (\<Union>x \<in> set (members un). {typeName x}) (setUnion mode n un info) info'"
        proof (rule forEach_stepOk [OF _ fe])
          fix x a b assume "x \<in> set (members un)" and "?f x a = Some b"
          then show "stepOk svc mode {typeName x} a b" using Suc.IH by simp
        qed
        moreover have "(\<Union>x \<in> set (members un). {typeName x}) = set (references svc n)"
          using Some tnone by (auto simp: references_def)
        ultimately have rest: "stepOk svc mode (set (references svc n)) (setUnion mode n un info) info'" by simp
        have res: "resolves svc n" using Some by (simp add: resolves_def)
        show ?thesis
          by (rule stepOk_mark [OF nv res _ _ rest])
             (simp_all add: visited_setUnion infoOk_setUnion nv Some tnone)
      next
        case unone: None
        show ?thesis
        proof (cases "getEnumByName svc n")
          case (Some e)
          from Suc.prems nv tnone unone Some have eq: "info' = setEnum mode n e info" by simp
          have refs: "references svc n = []" using tnone unone by (simp add: references_def)
          have rest: "stepOk svc mode (set (references svc n)) (setEnum mode n e info) info'"
            unfolding eq refs by (rule stepOk_refl) simp
          have res: "resolves svc n" using Some by (simp add: resolves_def)
          show ?thesis
            by (rule stepOk_mark [OF nv res _ _ rest])
               (simp_all add: visited_setEnum infoOk_setEnum nv Some tnone unone)
        next
          case None
          with Suc.prems nv tnone unone have "info' = info" by simp
          moreover have "\<not> resolves svc n" using None tnone unone by (simp add: resolves_def)
          ultimately show ?thesis by (auto intro: stepOk_refl)
        qed
      qed
    qed
  qed
qed

lemma forEach_preserves:
  assumes "\<And>x a b. x \<in> set xs \<Longrightarrow> f x a = Some b \<Longrightarrow> h b = h a"
    and "forEach f xs a = Some b"
  shows "h b = h a"
  using assms
proof (induction xs arbitrary: a)
  case Nil
  then show ?case by simp
next
  case (Cons x xs)
  from Cons.prems(2) obtain a' where fa: "f x a = Some a'" and rest: "forEach f xs a' = Some b"
    by (auto split: option.splits)
  have "h a' = h a" using Cons.prems(1) [OF _ fa] by simp
  moreover have "h b = h a'"
  proof (rule Cons.IH [OF _ rest])
    fix y c d assume "y \<in> set xs" "f y c = Some d"
    then show "h d = h c" using Cons.prems(1) [of y c d] by simp
  qed
  ultimately show ?case by simp
qed

lemma traverse_other:
  "traverse svc fuel n mode info = Some info' \<Longrightarrow>
   modeMaps (otherMode mode) info' = modeMaps (otherMode mode) info"
proof (induction fuel arbitrary: n info info')
  case 0
  then show ?case by simp
next
  case (Suc fuel)
  let ?h = "modeMaps (otherMode mode)"
  show ?case
  proof (cases "visited mode info n")
    case True
    with Suc.prems show ?thesis by simp
  next
    case nv: False
    show ?thesis
    proof (cases "getTypeByName svc n")
      case (Some ty)
      let ?f = "\<lambda>prop i. if \<not> isPrimitive prop then traverse svc fuel (typeName prop) mode i else Some i"
      from Suc.prems nv Some
      have fe: "forEach ?f (properties ty) (setType mode n ty info) = Some info'" by simp
      have "?h info' = ?h (setType mode n ty info)"
      proof (rule forEach_preserves [OF _ fe])
        fix x a b assume "x \<in> set (properties ty)" and "?f x a = Some b"
        then show "?h b = ?h a" using Suc.IH by (auto split: if_splits)
      qed
      then show ?thesis by (simp add: other_setType)
    next
      case tnone: None
      show ?thesis
      proof (cases "getUnionByName svc n")
        case (Some un)
        let ?f = "\<lambda>member i. traverse svc fuel (typeName member) mode i"
        from Suc.prems nv tnone Some
        have fe: "forEach ?f (members un) (setUnion mode n un info) = Some info'" by simp
        have "?h info' = ?h (setUnion mode n un info)"
        proof (rule forEach_preserves [OF _ fe])
          fix x a b assume "x \<in> set (members un)" and "?f x a = Some b"
          then show "?h b = ?h a" using Suc.IH by simp
        qed
        then show ?thesis by (simp add: other_setUnion)
      next
        case unone: None
        with Suc.prems nv tnone show ?thesis
          by (auto simp: other_setEnum split: option.splits)
      qed
    qed
  qed
qed

lemma resolves_names:
  "resolves svc x \<Longrightarrow>
   x \<in> Type.name ` set (types svc) \<union> Union.name ` set (unions svc) \<union> Enum.name ` set (enums svc)"
  by (auto simp: resolves_def getTypeByName_def getUnionByName_def getEnumByName_def find_None_iff)

lemma finite_resolves: "finite {x. resolves svc x}"
proof (rule finite_subset)
  show "{x. resolves svc x} \<subseteq>
    Type.name ` set (types svc) \<union> Union.name ` set (unions svc) \<union> Enum.name ` set (enums svc)"
    using resolves_names by blast
qed simp

lemma card_resolves:
  "card {x. resolves svc x} \<le> length (types svc) + length (unions svc) + length (enums svc)"
proof -
  let ?A = "Type.name ` set (types svc)" and ?B = "Union.name ` set (unions svc)"
    and ?C = "Enum.name ` set (enums svc)"
  have "card {x. resolves svc x} \<le> card (?A \<union> ?B \<union> ?C)"
    by (rule card_mono) (use resolves_names in auto)
  also have "\<dots> \<le> card (?A \<union> ?B) + card ?C" by (rule card_Un_le)
  also have "\<dots> \<le> card ?A + card ?B + card ?C" using card_Un_le [of ?A ?B] by simp
  also have "\<dots> \<le> length (types svc) + length (unions svc) + length (enums svc)"
    using card_image_le [of "set (types svc)" Type.name] card_length [of "types svc"]
      card_image_le [of "set (unions svc)" Union.name] card_length [of "unions svc"]
      card_image_le [of "set (enums svc)" Enum.name] card_length [of "enums svc"]
    by simp
  finally show ?thesis .
qed

lemma finite_unvisited: "finite (unvisited svc mode info)"
  by (rule finite_subset [OF _ finite_resolves [of svc]]) (auto simp: unvisited_def)

lemma unvisited_mono:
  "stepOk svc mode R a b \<Longrightarrow> card (unvisited svc mode b) \<le> card (unvisited svc mode a)"
  by (rule card_mono [OF finite_unvisited]) (auto simp: unvisited_def stepOk_def)

lemma unvisited_mark:
  assumes "\<not> visited mode info n" "resolves svc n"
    and "\<And>x. visited mode info1 x \<longleftrightarrow> visited mode info x \<or> x = n"
  shows "card (unvisited svc mode info1) < card (unvisited svc mode info)"
proof (rule psubset_card_mono [OF finite_unvisited])
  show "unvisited svc mode info1 \<subset> unvisited svc mode info"
    using assms by (auto simp: unvisited_def)
qed

lemma forEach_terminates:
  assumes "\<And>x a. x \<in> set xs \<Longrightarrow> P a \<Longrightarrow> \<exists>b. f x a = Some b \<and> P b"
    and "P a"
  shows "\<exists>b. forEach f xs a = Some b \<and> P b"
  using assms
proof (induction xs arbitrary: a)
  case Nil
  then show ?case by simp
next
  case (Cons x xs)
  from Cons.prems obtain a' where fa: "f x a = Some a'" and pa: "P a'" by fastforce
  from Cons.IH [OF _ pa] Cons.prems(1) obtain b where "forEach f xs a' = Some b" "P b"
    by fastforce
  with fa show ?case by simp
qed

lemma traverse_terminates_aux:
  "card (unvisited svc mode info) < fuel \<Longrightarrow>
   \<exists>info'. traverse svc fuel n mode info = Some info' \<and> card (unvisited svc mode info') < fuel"
proof (induction fuel arbitrary: n info)
  case 0
  then show ?case by simp
next
  case (Suc fuel)
  let ?P = "\<lambda>i. card (unvisited svc mode i) < fuel"
  have call: "\<exists>b. traverse svc fuel k mode a = Some b \<and> ?P b" if "?P a" for k a
    using Suc.IH [OF that] by blast
  show ?case
  proof (cases "visited mode info n")
    case True
    then show ?thesis using Suc.prems by simp
  next
    case nv: False
    show ?thesis
    proof (cases "getTypeByName svc n")
      case (Some ty)
      have res: "resolves svc n" using Some by (simp add: resolves_def)
      have "card (unvisited svc mode (setType mode n ty info)) < card (unvisited svc mode info)"
        by (rule unvisited_mark [OF nv res]) (simp add: visited_setType)
      with Suc.prems have p1: "?P (setType mode n ty info)" by simp
      let ?f = "\<lambda>prop i. if \<not> isPrimitive prop then traverse svc fuel (typeName prop) mode i else Some i"
      have "\<exists>b. forEach ?f (properties ty) (setType mode n ty info) = Some b \<and> ?P b"
      proof (rule forEach_terminates [where P = ?P, OF _ p1])
        fix x a assume "x \<in> set (properties ty)" and "?P a"
        then show "\<exists>b. ?f x a = Some b \<and> ?P b" using call by auto
      qed
      then show ?thesis using nv Some by auto
    next
      case tnone: None
      show ?thesis
      proof (cases "getUnionByName svc n")
        case (Some un)
        have res: "resolves svc n" using Some by (simp add: resolves_def)
        have "card (unvisited svc mode (setUnion mode n un info)) < card (unvisited svc mode info)"
          by (rule unvisited_mark [OF nv res]) (simp add: visited_setUnion)
        with Suc.prems have p1: "?P (setUnion mode n un info)" by simp
        let ?f = "\<lambda>member i. traverse svc fuel (typeName member) mode i"
        have "\<exists>b. forEach ?f (members un) (setUnion mode n un info) = Some b \<and> ?P b"
        proof (rule forEach_terminates [where P = ?P, OF _ p1])
          fix x a assume "x \<in> set (members un)" and "?P a"
          then show "\<exists>b. ?f x a = Some b \<and> ?P b" using call by auto
        qed
        then show ?thesis using nv tnone Some by auto
      next
        case unone: None
        show ?thesis
        proof (cases "getEnumByName svc n")
          case (Some e)
          have res: "resolves svc n" using Some by (simp add: resolves_def)
          have "card (unvisited svc mode (setEnum mode n e info)) < card (unvisited svc mode info)"
            by (rule unvisited_mark [OF nv res]) (simp add: visited_setEnum)
          with Suc.prems show ?thesis using nv tnone unone Some by simp
        next
          case None
          then show ?thesis using Suc.prems nv tnone unone by simp
        qed
      qed
    qed
  qed
qed

lemma visited_modeMaps: "modeMaps mode b = modeMaps mode a \<Longrightarrow> visited mode b x = visited mode a x"
  by (simp add: visited_iff keysOf_def)

lemma stepOk_other:
  assumes "stepOk svc m' R a b" and eq: "modeMaps mode b = modeMaps mode a"
  shows "stepOk svc mode {} a b"
  using assms(1) visited_modeMaps [OF eq] by (simp add: stepOk_def)

lemma modeRoots_methodRoots: "modeRoots mode intf = (\<Union>m \<in> set (methods intf). methodRoots mode m)"
proof (cases mode)
  case Input
  then show ?thesis by (auto simp: modeRoots_def inputRoots_def methodRoots_def)
next
  case Output
  have "outputRoots intf = (\<Union>m \<in> set (methods intf). methodRoots Output m)"
  proof (intro set_eqI iffI)
    fix x assume "x \<in> outputRoots intf"
    then obtain rt m where "x = typeName rt" "m \<in> set (methods intf)" "returnType m = Some rt" "\<not> isPrimitive rt"
      by (auto simp: outputRoots_def)
    then have "m \<in> set (methods intf)" "x \<in> methodRoots Output m" by (simp_all add: methodRoots_def)
    then show "x \<in> (\<Union>m \<in> set (methods intf). methodRoots Output m)" by blast
  next
    fix x assume "x \<in> (\<Union>m \<in> set (methods intf). methodRoots Output m)"
    then obtain m where m: "m \<in> set (methods intf)" and x: "x \<in> methodRoots Output m" by blast
    from x obtain rt where "returnType m = Some rt" "\<not> isPrimitive rt" "x = typeName rt"
      by (auto simp: methodRoots_def split: option.splits if_splits)
    with m show "x \<in> outputRoots intf" unfolding outputRoots_def by blast
  qed
  with Output show ?thesis by (simp add: modeRoots_def)
qed

lemma otherMode_other [simp]: "otherMode (otherMode mode) = mode"
  by (cases mode) simp_all

lemma traverse_same: 
  "traverse svc fuel n (otherMode mode) info = Some info' \<Longrightarrow> modeMaps mode info' = modeMaps mode info"
  using traverse_other [of svc fuel n "otherMode mode" info info'] by simp

lemma initMethod_stepOk:
  assumes "initMethod svc fuel method info = Some info'"
  shows "stepOk svc mode (methodRoots mode method) info info'"
proof -
  let ?f = "\<lambda>param i. traverse svc fuel (typeName param) Input i"
  from assms obtain info1 where
    fe: "forEach ?f (parameters method) info = Some info1" and
    ret: "(case returnType method of
             Some rt \<Rightarrow> if \<not> isPrimitive rt then traverse svc fuel (typeName rt) Output info1 else Some info1
           | None \<Rightarrow> Some info1) = Some info'"
    by (auto simp: initMethod_def split: option.splits)
  have "stepOk svc Input (\<Union>p \<in> set (parameters method). {typeName p}) info info1"
    by (rule forEach_stepOk [OF _ fe]) (rule traverse_stepOk)
  moreover have "(\<Union>p \<in> set (parameters method). {typeName p}) = methodRoots Input method"
    by (auto simp: methodRoots_def)
  ultimately have in1: "stepOk svc Input (methodRoots Input method) info info1" by simp
  have in1': "modeMaps Output info1 = modeMaps Output info"
    by (rule forEach_preserves [OF _ fe]) (use traverse_other [where mode = Input] in simp)
  have out2: "stepOk svc Output (methodRoots Output method) info1 info'"
    using ret by (auto simp: methodRoots_def split: option.splits if_splits
        intro: traverse_stepOk stepOk_refl)
  have out2': "modeMaps Input info' = modeMaps Input info1"
    using ret traverse_other [where mode = Output] by (auto split: option.splits if_splits)
  show ?thesis
  proof (cases mode)
    case Input
    have "stepOk svc Input (methodRoots Input method \<union> {}) info info'"
      by (rule stepOk_trans [OF in1 stepOk_other [OF out2 out2']])
    with Input show ?thesis by simp
  next
    case Output
    have "stepOk svc Output ({} \<union> methodRoots Output method) info info'"
      by (rule stepOk_trans [OF stepOk_other [OF in1 in1'] out2])
    with Output show ?thesis by simp
  qed
qed

lemma init_stepOk:
  assumes "init svc fuel intf info = Some info'"
  shows "stepOk svc mode (modeRoots mode intf) info info'"
  unfolding modeRoots_methodRoots
  by (rule forEach_stepOk [OF _ assms [unfolded init_def]]) (rule initMethod_stepOk)

lemma emptyInfo_facts [simp]: "\<not> visited mode emptyInfo x" "infoOk svc emptyInfo"
  by (simp_all add: visited_def emptyInfo_def map_has_def infoOk_def typesOk_def unionsOk_def enumsOk_def)

lemma references_resolves: "y \<in> set (references svc m) \<Longrightarrow> resolves svc m"
  by (auto simp: references_def resolves_def split: option.splits)

lemma typesOk_key: "typesOk svc m \<Longrightarrow> x \<in> fst ` set m \<Longrightarrow> \<exists>v. getTypeByName svc x = Some v \<and> (x, v) \<in> set m"
  unfolding typesOk_def by fastforce

lemma unionsOk_key: "unionsOk svc m \<Longrightarrow> x \<in> fst ` set m \<Longrightarrow>
    getTypeByName svc x = None \<and> (\<exists>v. getUnionByName svc x = Some v \<and> (x, v) \<in> set m)"
  unfolding unionsOk_def by fastforce

lemma enumsOk_key: "enumsOk svc m \<Longrightarrow> x \<in> fst ` set m \<Longrightarrow>
    getTypeByName svc x = None \<and> getUnionByName svc x = None \<and> (\<exists>v. getEnumByName svc x = Some v \<and> (x, v) \<in> set m)"
  unfolding enumsOk_def by fastforce

lemma visited_resolves: 
  assumes "infoOk svc info" "visited mode info x" shows "resolves svc x"
proof -
  obtain t u e where mm: "modeMaps mode info = (t, u, e)" by (cases "modeMaps mode info") auto
  have ok: "typesOk svc t \<and> unionsOk svc u \<and> enumsOk svc e"
    using assms(1) mm by (cases mode) (auto simp: infoOk_def modeMaps_def)
  from assms(2) have "x \<in> fst ` set t \<or> x \<in> fst ` set u \<or> x \<in> fst ` set e"
    by (auto simp: visited_iff keysOf_def mm)
  then show ?thesis
  proof (elim disjE)
    assume "x \<in> fst ` set t"
    from typesOk_key [OF _ this] ok show ?thesis unfolding resolves_def by blast
  next
    assume "x \<in> fst ` set u"
    from unionsOk_key [OF _ this] ok show ?thesis unfolding resolves_def by blast
  next
    assume "x \<in> fst ` set e"
    from enumsOk_key [OF _ this] ok show ?thesis unfolding resolves_def by blast
  qed
qed

lemma closure_visited_iff:
  assumes "newInterfaceInfo svc fuel intf = Some info"
  shows "visited mode info x \<longleftrightarrow> reachable svc (modeRoots mode intf) x \<and> resolves svc x"
proof -
  have ok: "stepOk svc mode (modeRoots mode intf) emptyInfo info"
    using assms by (simp add: newInterfaceInfo_def init_stepOk)
  have iok: "infoOk svc info" using ok by (simp add: stepOk_def)
  have roots: "\<And>r. r \<in> modeRoots mode intf \<Longrightarrow> resolves svc r \<Longrightarrow> visited mode info r"
    using ok by (simp add: stepOk_def)
  have new: "\<And>x. visited mode info x \<Longrightarrow> reachable svc (modeRoots mode intf) x \<and>
        (\<forall>y \<in> set (references svc x). resolves svc y \<longrightarrow> visited mode info y)"
    using ok by (simp add: stepOk_def)
  have complete: "resolves svc x \<Longrightarrow> visited mode info x" if "reachable svc (modeRoots mode intf) x" for x
    using that
  proof (induction rule: reachable.induct)
    case (root n)
    then show ?case using roots by simp
  next
    case (step m n)
    have "visited mode info m" using step.IH references_resolves [OF step.hyps(2)] by simp
    with new step.hyps(2) step.prems show ?case by blast
  qed
  show ?thesis using complete new visited_resolves [OF iok] by blast
qed

lemma unvisited_modeMaps:
  "modeMaps mode b = modeMaps mode a \<Longrightarrow> unvisited svc mode b = unvisited svc mode a"
  using visited_modeMaps [of mode b a] by (simp add: unvisited_def)

lemma traverse_terminates2:
  assumes "card (unvisited svc Input info) < fuel \<and> card (unvisited svc Output info) < fuel"
  shows "\<exists>info'. traverse svc fuel n mode info = Some info' \<and>
          card (unvisited svc Input info') < fuel \<and> card (unvisited svc Output info') < fuel"
proof (cases mode)
  case Input
  from traverse_terminates_aux [of svc Input info fuel n] assms obtain info'
    where t: "traverse svc fuel n Input info = Some info'" and c: "card (unvisited svc Input info') < fuel"
    by blast
  have "modeMaps Output info' = modeMaps Output info" using traverse_other [OF t] by simp
  then have "unvisited svc Output info' = unvisited svc Output info" by (rule unvisited_modeMaps)
  with t c assms Input show ?thesis by simp
next
  case Output
  from traverse_terminates_aux [of svc Output info fuel n] assms obtain info'
    where t: "traverse svc fuel n Output info = Some info'" and c: "card (unvisited svc Output info') < fuel"
    by blast
  have "modeMaps Input info' = modeMaps Input info" using traverse_other [OF t] by simp
  then have "unvisited svc Input info' = unvisited svc Input info" by (rule unvisited_modeMaps)
  with t c assms Output show ?thesis by simp
qed

lemma initMethod_terminates:
  assumes "card (unvisited svc Input info) < fuel \<and> card (unvisited svc Output info) < fuel"
  shows "\<exists>info'. initMethod svc fuel method info = Some info' \<and>
          card (unvisited svc Input info') < fuel \<and> card (unvisited svc Output info') < fuel"
proof -
  let ?P = "\<lambda>i. card (unvisited svc Input i) < fuel \<and> card (unvisited svc Output i) < fuel"
  let ?f = "\<lambda>param i. traverse svc fuel (typeName param) Input i"
  have "\<exists>b. forEach ?f (parameters method) info = Some b \<and> ?P b"
    by (rule forEach_terminates [where P = ?P, OF _ assms]) (rule traverse_terminates2)
  then obtain info1 where fe: "forEach ?f (parameters method) info = Some info1" and p1: "?P info1"
    by blast
  show ?thesis
  proof (cases "returnType method")
    case None
    with fe p1 show ?thesis by (simp add: initMethod_def)
  next
    case (Some rt)
    show ?thesis
    proof (cases "isPrimitive rt")
      case True
      with Some fe p1 show ?thesis by (simp add: initMethod_def)
    next
      case False
      from traverse_terminates2 [OF p1, of "typeName rt" Output]
      show ?thesis using Some False fe by (simp add: initMethod_def)
    qed
  qed
qed

lemma unvisited_le: "card (unvisited svc mode info) \<le> card {x. resolves svc x}"
  by (rule card_mono [OF finite_resolves]) (auto simp: unvisited_def)

lemma newInterfaceInfo_terminates:
  assumes "length (types svc) + length (unions svc) + length (enums svc) < fuel"
  shows "\<exists>info. newInterfaceInfo svc fuel intf = Some info"
proof -
  let ?P = "\<lambda>i. card (unvisited svc Input i) < fuel \<and> card (unvisited svc Output i) < fuel"
  have p0: "?P emptyInfo"
    using unvisited_le [of svc Input emptyInfo] unvisited_le [of svc Output emptyInfo]
      card_resolves [of svc] assms by simp
  have "\<exists>b. forEach (initMethod svc fuel) (methods intf) emptyInfo = Some b \<and> ?P b"
    by (rule forEach_terminates [where P = ?P, OF _ p0]) (rule initMethod_terminates)
  then show ?thesis by (auto simp: newInterfaceInfo_def init_def)
qed

lemma forEach_mono:
  assumes "\<And>x a b. x \<in> set xs \<Longrightarrow> f x a = Some b \<Longrightarrow> g x a = Some b"
    and "forEach f xs a = Some b"
  shows "forEach g xs a = Some b"
  using assms
proof (induction xs arbitrary: a)
  case Nil
  then show ?case by simp
next
  case (Cons x xs)
  from Cons.prems(2) obtain a' where fa: "f x a = Some a'" and rest: "forEach f xs a' = Some b"
    by (auto split: option.splits)
  have "g x a = Some a'" using Cons.prems(1) [OF _ fa] by simp
  moreover have "forEach g xs a' = Some b"
  proof (rule Cons.IH [OF _ rest])
    fix y c d assume "y \<in> set xs" "f y c = Some d"
    then show "g y c = Some d" using Cons.prems(1) [of y c d] by simp
  qed
  ultimately show ?case by simp
qed

lemma traverse_fuel_mono:
  "traverse svc fuel n mode info = Some info' \<Longrightarrow> fuel \<le> fuel' \<Longrightarrow>
   traverse svc fuel' n mode info = Some info'"
proof (induction fuel arbitrary: n info info' fuel')
  case 0
  then show ?case by simp
next
  case (Suc fuel)
  from Suc.prems(2) obtain k where k: "fuel' = Suc k" and le: "fuel \<le> k" by (cases fuel') auto
  have call: "\<And>m a b. traverse svc fuel m mode a = Some b \<Longrightarrow> traverse svc k m mode a = Some b"
    using Suc.IH le by blast
  show ?case
  proof (cases "visited mode info n")
    case True
    with Suc.prems k show ?thesis by simp
  next
    case nv: False
    show ?thesis
    proof (cases "getTypeByName svc n")
      case (Some ty)
      let ?f = "\<lambda>fu prop i. if \<not> isPrimitive prop then traverse svc fu (typeName prop) mode i else Some i"
      from Suc.prems nv Some
      have fe: "forEach (?f fuel) (properties ty) (setType mode n ty info) = Some info'" by simp
      have "forEach (?f k) (properties ty) (setType mode n ty info) = Some info'"
        by (rule forEach_mono [OF _ fe]) (auto split: if_splits intro: call)
      then show ?thesis using nv Some k by simp
    next
      case tnone: None
      show ?thesis
      proof (cases "getUnionByName svc n")
        case (Some un)
        let ?f = "\<lambda>fu member i. traverse svc fu (typeName member) mode i"
        from Suc.prems nv tnone Some
        have fe: "forEach (?f fuel) (members un) (setUnion mode n un info) = Some info'" by simp
        have "forEach (?f k) (members un) (setUnion mode n un info) = Some info'"
          by (rule forEach_mono [OF _ fe]) (auto intro: call)
        then show ?thesis using nv tnone Some k by simp
      next
        case None
        with Suc.prems nv tnone k show ?thesis by (auto split: option.splits)
      qed
    qed
  qed
qed

lemma newInterfaceInfo_fuel_mono:
  assumes "newInterfaceInfo svc fuel intf = Some info" and "fuel \<le> fuel'"
  shows "newInterfaceInfo svc fuel' intf = Some info"
proof -
  have m: "initMethod svc fuel' meth a = Some b" if "initMethod svc fuel meth a = Some b" for meth a b
  proof -
    let ?f = "\<lambda>fu param i. traverse svc fu (typeName param) Input i"
    from that obtain a1 where
      fe: "forEach (?f fuel) (parameters meth) a = Some a1" and
      ret: "(case returnType meth of
               Some rt \<Rightarrow> if \<not> isPrimitive rt then traverse svc fuel (typeName rt) Output a1 else Some a1
             | None \<Rightarrow> Some a1) = Some b"
      by (auto simp: initMethod_def split: option.splits)
    have fe': "forEach (?f fuel') (parameters meth) a = Some a1"
      by (rule forEach_mono [OF _ fe]) (rule traverse_fuel_mono [OF _ assms(2)])
    have "(case returnType meth of
               Some rt \<Rightarrow> if \<not> isPrimitive rt then traverse svc fuel' (typeName rt) Output a1 else Some a1
             | None \<Rightarrow> Some a1) = Some b"
      using ret traverse_fuel_mono [OF _ assms(2)] by (auto split: option.splits if_splits)
    with fe' show ?thesis by (simp add: initMethod_def)
  qed
  show ?thesis
    using assms(1) unfolding newInterfaceInfo_def init_def
    by (rule forEach_mono [rotated]) (rule m)
qed

lemma getTypeByName_name: "getTypeByName svc n = Some ty \<Longrightarrow> Type.name ty = n"
  by (auto simp: getTypeByName_def find_Some_iff)

lemma getUnionByName_name: "getUnionByName svc n = Some un \<Longrightarrow> Union.name un = n"
  by (auto simp: getUnionByName_def find_Some_iff)

lemma getEnumByName_name: "getEnumByName svc n = Some e \<Longrightarrow> Enum.name e = n"
  by (auto simp: getEnumByName_def find_Some_iff)

lemma set_jsSort [simp]: "set (jsSort cmp xs) = set xs"
  by (simp add: jsSort_def)

lemma mset_jsSort [simp]: "mset (jsSort cmp xs) = mset xs"
  by (simp add: jsSort_def)

lemma sorted_jsSort: "Sorting_Algorithms.sorted cmp (jsSort cmp xs)"
  by (simp add: jsSort_def)

lemma distinct_jsSort [simp]: "distinct (jsSort cmp xs) = distinct xs"
  by (rule mset_eq_imp_distinct_iff) simp

lemma length_filter_jsSort: "length (filter P (jsSort cmp xs)) = length (filter P xs)"
proof -
  have "mset (filter P (jsSort cmp xs)) = mset (filter P xs)" by simp
  then show ?thesis by (rule mset_eq_length)
qed

lemma sorted_key_map:
  "Sorting_Algorithms.sorted (Comparator.key f cmp) xs = Sorting_Algorithms.sorted cmp (map f xs)"
proof (induction xs)
  case Nil
  then show ?case by simp
next
  case (Cons x xs)
  then show ?case by (cases xs) simp_all
qed

lemma set_keySet [simp]: "set (keySet ks) = set ks"
  by (simp add: keySet_def)

lemma distinct_keySet [simp]: "distinct (keySet ks)"
  by (simp add: keySet_def)

lemma mergedView_names:
  assumes "named nm inp" "named nm out"
  shows "map nm (mergedView cmp inp out) = jsSort cmp (keySet (map_keys inp @ map_keys out))"
proof -
  let ?g = "\<lambda>name. case map_get inp name of
                            Some v \<Rightarrow> [v]
                          | None \<Rightarrow> (case map_get out name of Some v \<Rightarrow> [v] | None \<Rightarrow> [])"
  have one: "map nm (?g k) = [k]" if "k \<in> fst ` set inp \<union> fst ` set out" for k
  proof (cases "map_of inp k")
    case (Some v)
    then have "(k, v) \<in> set inp" by (rule map_of_SomeD)
    with assms(1) have "nm v = k" by (auto simp: named_def)
    with Some show ?thesis by (simp add: map_get_def)
  next
    case None
    then have "k \<notin> fst ` set inp" by (simp add: map_of_eq_None_iff)
    with that have "k \<in> fst ` set out" by simp
    then obtain v where v: "map_of out k = Some v"
      by (cases "map_of out k") (auto simp: map_of_eq_None_iff)
    then have "(k, v) \<in> set out" by (rule map_of_SomeD)
    with assms(2) have "nm v = k" by (auto simp: named_def)
    with None v show ?thesis by (simp add: map_get_def)
  qed
  have gen: "set ks \<subseteq> fst ` set inp \<union> fst ` set out \<Longrightarrow> map nm (concat (map ?g ks)) = ks" for ks
  proof (induction ks)
    case Nil
    then show ?case by simp
  next
    case (Cons k ks)
    then have "map nm (?g k) = [k]" using one by simp
    with Cons show ?case by simp
  qed
  show ?thesis
    unfolding mergedView_def
    by (rule gen) (simp add: map_keys_def)
qed

lemma named_values: "named nm m \<Longrightarrow> map nm (map_values m) = map_keys m"
  by (induction m) (auto simp: named_def map_values_def map_keys_def)

lemma count_in_distinct:
  "distinct xs \<Longrightarrow> length (filter (\<lambda>x. x = n) xs) = (if n \<in> set xs then 1 else 0)"
  by (induction xs) auto

lemma length_filter_map: "length (filter (\<lambda>v. f v = n) vs) = length (filter (\<lambda>x. x = n) (map f vs))"
  by (induction vs) auto

lemma typesOk_named: "typesOk svc m \<Longrightarrow> named Type.name m"
  by (auto simp: typesOk_def named_def dest: getTypeByName_name)

lemma unionsOk_named: "unionsOk svc m \<Longrightarrow> named Union.name m"
  by (auto simp: unionsOk_def named_def dest: getUnionByName_name)

lemma enumsOk_named: "enumsOk svc m \<Longrightarrow> named Enum.name m"
  by (auto simp: enumsOk_def named_def dest: getEnumByName_name)

lemma sorted_values_once:
  assumes "named nm m" "distinct (map fst m)"
  shows "length (filter (\<lambda>v. nm v = n) (jsSort (Comparator.key nm cmp) (map_values m)))
          = (if map_has m n then 1 else 0)"
proof -
  have "length (filter (\<lambda>v. nm v = n) (jsSort (Comparator.key nm cmp) (map_values m)))
        = length (filter (\<lambda>v. nm v = n) (map_values m))"
    by (rule length_filter_jsSort)
  also have "\<dots> = length (filter (\<lambda>x. x = n) (map nm (map_values m)))"
    by (rule length_filter_map)
  also have "\<dots> = length (filter (\<lambda>x. x = n) (map fst m))"
    using named_values [OF assms(1)] by (simp add: map_keys_def)
  also have "\<dots> = (if map_has m n then 1 else 0)"
    using count_in_distinct [OF assms(2)] by (simp add: map_has_def)
  finally show ?thesis .
qed

lemma merged_once:
  assumes "named nm inp" "named nm out"
  shows "length (filter (\<lambda>v. nm v = n) (mergedView cmp inp out))
          = (if map_has inp n \<or> map_has out n then 1 else 0)"
proof -
  have "length (filter (\<lambda>v. nm v = n) (mergedView cmp inp out))
        = length (filter (\<lambda>x. x = n) (map nm (mergedView cmp inp out)))"
    by (rule length_filter_map)
  also have "\<dots> = length (filter (\<lambda>x. x = n) (keySet (map_keys inp @ map_keys out)))"
    by (simp add: mergedView_names [OF assms] length_filter_jsSort)
  also have "\<dots> = (if map_has inp n \<or> map_has out n then 1 else 0)"
    using count_in_distinct [OF distinct_keySet] by (auto simp: map_has_def map_keys_def)
  finally show ?thesis .
qed

lemma merged_sorted:
  assumes "named nm inp" "named nm out"
  shows "Sorting_Algorithms.sorted (Comparator.key nm cmp) (mergedView cmp inp out)"
  by (simp add: sorted_key_map mergedView_names [OF assms] sorted_jsSort)

subsection \<open>Termination and cycle safety\<close>

lemma infoOk_closure: "newInterfaceInfo svc fuel intf = Some info \<Longrightarrow> infoOk svc info"
  using init_stepOk [of svc fuel intf emptyInfo info Input]
  by (simp add: newInterfaceInfo_def stepOk_def)

lemma visited_types_iff:
  assumes "infoOk svc info" "getTypeByName svc n = Some ty"
  shows "visited mode info n \<longleftrightarrow> map_get (fst (modeMaps mode info)) n = Some ty"
proof -
  obtain t u e where mm: "modeMaps mode info = (t, u, e)" by (cases "modeMaps mode info") auto
  have ok: "typesOk svc t \<and> unionsOk svc u \<and> enumsOk svc e"
    using assms(1) mm by (cases mode) (auto simp: infoOk_def modeMaps_def)
  have nu: "n \<notin> fst ` set u" using unionsOk_key [of svc u n] ok assms(2) by auto
  have ne: "n \<notin> fst ` set e" using enumsOk_key [of svc e n] ok assms(2) by auto
  have "n \<in> fst ` set t \<longleftrightarrow> map_of t n = Some ty"
  proof
    assume "n \<in> fst ` set t"
    from typesOk_key [of svc t n] this ok assms(2) have "(n, ty) \<in> set t" by auto
    moreover have "distinct (map fst t)" using ok by (simp add: typesOk_def)
    ultimately show "map_of t n = Some ty" by simp
  next
    assume "map_of t n = Some ty"
    then have "(n, ty) \<in> set t" by (rule map_of_SomeD)
    then show "n \<in> fst ` set t" by force
  qed
  with nu ne show ?thesis by (simp add: visited_iff keysOf_def mm map_get_def)
qed

lemma map_get_has: "map_get m n = Some v \<Longrightarrow> map_has m n"
  by (auto simp: map_get_def map_has_def dest!: map_of_SomeD intro: rev_image_eqI)

text \<open>
  Claim C1. For every Service and Interface, cyclic type graphs included, the traversal of
  the closure resolver terminates: once the available depth exceeds the number of entities
  of the Service, the constructor returns, and with any larger depth it returns the same
  maps. In the result every Type that is reachable from a parameter is listed exactly once
  among the input types, and every Type reachable from a return value exactly once among
  the output types; this covers the Types that refer to themselves.
\<close>

theorem closure_terminates_and_lists_each_type_once:
  assumes "length (types svc) + length (unions svc) + length (enums svc) < fuel"
  shows "\<exists>info. newInterfaceInfo svc fuel intf = Some info \<and>
           (\<forall>fuel'. fuel \<le> fuel' \<longrightarrow> newInterfaceInfo svc fuel' intf = Some info) \<and>
           (\<forall>n ty. getTypeByName svc n = Some ty \<longrightarrow>
              (reachable svc (inputRoots intf) n \<longrightarrow>
                 length (filter (\<lambda>t. Type.name t = n) (get_inputTypes cmp info)) = 1) \<and>
              (reachable svc (outputRoots intf) n \<longrightarrow>
                 length (filter (\<lambda>t. Type.name t = n) (get_outputTypes cmp info)) = 1))"
proof -
  from newInterfaceInfo_terminates [OF assms] obtain info
    where run: "newInterfaceInfo svc fuel intf = Some info" by blast
  have ok: "infoOk svc info" using run by (rule infoOk_closure)
  have once: "length (filter (\<lambda>t. Type.name t = n) (get_inputTypes cmp info)) = 1"
    if "getTypeByName svc n = Some ty" "reachable svc (inputRoots intf) n" for n ty
  proof -
    have "visited Input info n"
      using closure_visited_iff [OF run, of Input n] that by (simp add: modeRoots_def resolves_def)
    then have "map_has (priv_inputTypes info) n"
      using visited_types_iff [OF ok that(1), of Input] by (simp add: modeMaps_def map_get_has)
    moreover have "typesOk svc (priv_inputTypes info)" using ok by (simp add: infoOk_def)
    ultimately show ?thesis
      using sorted_values_once [of Type.name "priv_inputTypes info" n cmp]
      by (simp add: get_inputTypes_def typesOk_named) (simp add: typesOk_def)
  qed
  have once': "length (filter (\<lambda>t. Type.name t = n) (get_outputTypes cmp info)) = 1"
    if "getTypeByName svc n = Some ty" "reachable svc (outputRoots intf) n" for n ty
  proof -
    have "visited Output info n"
      using closure_visited_iff [OF run, of Output n] that by (simp add: modeRoots_def resolves_def)
    then have "map_has (priv_outputTypes info) n"
      using visited_types_iff [OF ok that(1), of Output] by (simp add: modeMaps_def map_get_has)
    moreover have "typesOk svc (priv_outputTypes info)" using ok by (simp add: infoOk_def)
    ultimately show ?thesis
      using sorted_values_once [of Type.name "priv_outputTypes info" n cmp]
      by (simp add: get_outputTypes_def typesOk_named) (simp add: typesOk_def)
  qed
  show ?thesis
  proof (intro exI conjI allI impI)
    show "newInterfaceInfo svc fuel intf = Some info" by (rule run)
  next
    fix fuel' assume "fuel \<le> fuel'"
    then show "newInterfaceInfo svc fuel' intf = Some info" by (rule newInterfaceInfo_fuel_mono [OF run])
  next
    fix n ty assume "getTypeByName svc n = Some ty" "reachable svc (inputRoots intf) n"
    then show "length (filter (\<lambda>t. Type.name t = n) (get_inputTypes cmp info)) = 1" by (rule once)
  next
    fix n ty assume "getTypeByName svc n = Some ty" "reachable svc (outputRoots intf) n"
    then show "length (filter (\<lambda>t. Type.name t = n) (get_outputTypes cmp info)) = 1" by (rule once')
  qed
qed

lemma nodeRun: "newInterfaceInfo nodeService 2 nodeInterface =
     Some (emptyInfo\<lparr>priv_inputTypes := [(''Node'', nodeType)]\<rparr>)"
  by (simp add: newInterfaceInfo_def init_def initMethod_def nodeService_def nodeInterface_def
      nodeType_def mkType_def mkProp_def mkMethod_def mkInterface_def emptyInfo_def
      numeral_2_eq_2 visited_def map_has_def getTypeByName_def setType_def)

lemma nodeReachable: "reachable nodeService (inputRoots nodeInterface) ''Node''"
  by (rule reachable.root)
     (simp add: inputRoots_def nodeInterface_def mkInterface_def mkMethod_def mkProp_def)

text \<open>
  The scenario of the claim: \<open>Node\<close> has a property of type \<open>Node\<close>, and the input
  types of an interface with a parameter of type \<open>Node\<close> are exactly \<open>[Node]\<close>.
\<close>

theorem closure_terminates_and_lists_each_type_once_witness:
  "length (types nodeService) + length (unions nodeService) + length (enums nodeService) < 2 \<and>
   ''Node'' \<in> set (references nodeService ''Node'') \<and>
   newInterfaceInfo nodeService 2 nodeInterface
     = Some (emptyInfo\<lparr>priv_inputTypes := [(''Node'', nodeType)]\<rparr>) \<and>
   newInterfaceInfo nodeService 7 nodeInterface
     = Some (emptyInfo\<lparr>priv_inputTypes := [(''Node'', nodeType)]\<rparr>) \<and>
   length (filter (\<lambda>t. Type.name t = ''Node'')
     (get_inputTypes default (emptyInfo\<lparr>priv_inputTypes := [(''Node'', nodeType)]\<rparr>))) = 1 \<and>
   get_inputTypes default (emptyInfo\<lparr>priv_inputTypes := [(''Node'', nodeType)]\<rparr>) = [nodeType]"
proof -
  have bound: "length (types nodeService) + length (unions nodeService) + length (enums nodeService) < 2"
    by (simp add: nodeService_def)
  have ty: "getTypeByName nodeService ''Node'' = Some nodeType"
    by (simp add: getTypeByName_def nodeService_def nodeType_def mkType_def)
  have self: "''Node'' \<in> set (references nodeService ''Node'')"
    unfolding references_def ty by (simp add: nodeType_def mkType_def mkProp_def)
  from closure_terminates_and_lists_each_type_once [OF bound, of nodeInterface default]
  obtain info where run: "newInterfaceInfo nodeService 2 nodeInterface = Some info"
    and more: "\<forall>fuel'. 2 \<le> fuel' \<longrightarrow> newInterfaceInfo nodeService fuel' nodeInterface = Some info"
    and once: "\<forall>n ty. getTypeByName nodeService n = Some ty \<longrightarrow>
              (reachable nodeService (inputRoots nodeInterface) n \<longrightarrow>
                 length (filter (\<lambda>t. Type.name t = n) (get_inputTypes default info)) = 1) \<and>
              (reachable nodeService (outputRoots nodeInterface) n \<longrightarrow>
                 length (filter (\<lambda>t. Type.name t = n) (get_outputTypes default info)) = 1)"
    by blast
  from run nodeRun have info: "info = emptyInfo\<lparr>priv_inputTypes := [(''Node'', nodeType)]\<rparr>" by simp
  have seven: "newInterfaceInfo nodeService 7 nodeInterface = Some info" using more by simp
  have one: "length (filter (\<lambda>t. Type.name t = ''Node'') (get_inputTypes default info)) = 1"
    using once ty nodeReachable by blast
  have lst: "get_inputTypes default (emptyInfo\<lparr>priv_inputTypes := [(''Node'', nodeType)]\<rparr>) = [nodeType]"
    by (simp add: get_inputTypes_def jsSort_def map_values_def emptyInfo_def)
  show ?thesis using bound self run seven one lst unfolding info by simp
qed

subsection \<open>Directional partition and merged views\<close>

lemma modeOk:
  assumes "infoOk svc info"
  shows "typesOk svc (fst (modeMaps mode info)) \<and> unionsOk svc (fst (snd (modeMaps mode info)))
          \<and> enumsOk svc (snd (snd (modeMaps mode info)))"
  using assms by (cases mode) (auto simp: infoOk_def modeMaps_def)

lemma visited_cases:
  "visited mode info n \<longleftrightarrow> n \<in> fst ` set (fst (modeMaps mode info))
      \<or> n \<in> fst ` set (fst (snd (modeMaps mode info))) \<or> n \<in> fst ` set (snd (snd (modeMaps mode info)))"
  by (cases "modeMaps mode info") (auto simp: visited_iff keysOf_def)

lemma types_member_iff:
  assumes run: "newInterfaceInfo svc fuel intf = Some info" and ty: "getTypeByName svc n = Some ty"
  shows "ty \<in> snd ` set (fst (modeMaps mode info)) \<longleftrightarrow> reachable svc (modeRoots mode intf) n"
proof -
  let ?t = "fst (modeMaps mode info)"
  have ok: "infoOk svc info" using run by (rule infoOk_closure)
  note mo = modeOk [OF ok, of mode]
  have res: "resolves svc n" using ty by (simp add: resolves_def)
  have "ty \<in> snd ` set ?t \<longleftrightarrow> n \<in> fst ` set ?t"
  proof
    assume "ty \<in> snd ` set ?t"
    then obtain k where k: "(k, ty) \<in> set ?t" by auto
    then have "k \<in> fst ` set ?t" by force
    from typesOk_key [of svc ?t k] this mo k have "getTypeByName svc k = Some ty"
      by (auto simp: typesOk_def)
    then have "k = n" using ty by (auto dest: getTypeByName_name)
    with k show "n \<in> fst ` set ?t" by force
  next
    assume "n \<in> fst ` set ?t"
    from typesOk_key [of svc ?t n] this mo ty show "ty \<in> snd ` set ?t" by force
  qed
  also have "\<dots> \<longleftrightarrow> visited mode info n"
    using unionsOk_key [of svc "fst (snd (modeMaps mode info))" n]
      enumsOk_key [of svc "snd (snd (modeMaps mode info))" n] mo ty
    by (auto simp: visited_cases)
  also have "\<dots> \<longleftrightarrow> reachable svc (modeRoots mode intf) n"
    using closure_visited_iff [OF run, of mode n] res by simp
  finally show ?thesis .
qed

lemma unions_member_iff:
  assumes run: "newInterfaceInfo svc fuel intf = Some info"
    and ty: "getTypeByName svc n = None" and un: "getUnionByName svc n = Some u"
  shows "u \<in> snd ` set (fst (snd (modeMaps mode info))) \<longleftrightarrow> reachable svc (modeRoots mode intf) n"
proof -
  let ?u = "fst (snd (modeMaps mode info))"
  have ok: "infoOk svc info" using run by (rule infoOk_closure)
  note mo = modeOk [OF ok, of mode]
  have res: "resolves svc n" using un by (simp add: resolves_def)
  have "u \<in> snd ` set ?u \<longleftrightarrow> n \<in> fst ` set ?u"
  proof
    assume "u \<in> snd ` set ?u"
    then obtain k where k: "(k, u) \<in> set ?u" by auto
    then have "k \<in> fst ` set ?u" by force
    from unionsOk_key [of svc ?u k] this mo k have "getUnionByName svc k = Some u"
      by (auto simp: unionsOk_def)
    then have "k = n" using un by (auto dest: getUnionByName_name)
    with k show "n \<in> fst ` set ?u" by force
  next
    assume "n \<in> fst ` set ?u"
    from unionsOk_key [of svc ?u n] this mo un show "u \<in> snd ` set ?u" by force
  qed
  also have "\<dots> \<longleftrightarrow> visited mode info n"
    using typesOk_key [of svc "fst (modeMaps mode info)" n]
      enumsOk_key [of svc "snd (snd (modeMaps mode info))" n] mo ty un
    by (auto simp: visited_cases)
  also have "\<dots> \<longleftrightarrow> reachable svc (modeRoots mode intf) n"
    using closure_visited_iff [OF run, of mode n] res by simp
  finally show ?thesis .
qed

lemma enums_member_iff:
  assumes run: "newInterfaceInfo svc fuel intf = Some info"
    and ty: "getTypeByName svc n = None" and un: "getUnionByName svc n = None"
    and en: "getEnumByName svc n = Some e"
  shows "e \<in> snd ` set (snd (snd (modeMaps mode info))) \<longleftrightarrow> reachable svc (modeRoots mode intf) n"
proof -
  let ?e = "snd (snd (modeMaps mode info))"
  have ok: "infoOk svc info" using run by (rule infoOk_closure)
  note mo = modeOk [OF ok, of mode]
  have res: "resolves svc n" using en by (simp add: resolves_def)
  have "e \<in> snd ` set ?e \<longleftrightarrow> n \<in> fst ` set ?e"
  proof
    assume "e \<in> snd ` set ?e"
    then obtain k where k: "(k, e) \<in> set ?e" by auto
    then have "k \<in> fst ` set ?e" by force
    from enumsOk_key [of svc ?e k] this mo k have "getEnumByName svc k = Some e"
      by (auto simp: enumsOk_def)
    then have "k = n" using en by (auto dest: getEnumByName_name)
    with k show "n \<in> fst ` set ?e" by force
  next
    assume "n \<in> fst ` set ?e"
    from enumsOk_key [of svc ?e n] this mo en show "e \<in> snd ` set ?e" by force
  qed
  also have "\<dots> \<longleftrightarrow> visited mode info n"
    using typesOk_key [of svc "fst (modeMaps mode info)" n]
      unionsOk_key [of svc "fst (snd (modeMaps mode info))" n] mo ty un en
    by (auto simp: visited_cases)
  also have "\<dots> \<longleftrightarrow> reachable svc (modeRoots mode intf) n"
    using closure_visited_iff [OF run, of mode n] res by simp
  finally show ?thesis .
qed

lemma set_getters:
  "set (get_inputTypes cmp info) = snd ` set (fst (modeMaps Input info))"
  "set (get_outputTypes cmp info) = snd ` set (fst (modeMaps Output info))"
  "set (get_inputUnions cmp info) = snd ` set (fst (snd (modeMaps Input info)))"
  "set (get_outputUnions cmp info) = snd ` set (fst (snd (modeMaps Output info)))"
  by (simp_all add: get_inputTypes_def get_outputTypes_def get_inputUnions_def get_outputUnions_def
      modeMaps_def map_values_def)

lemma set_priv_enums:
  "priv_inputEnums info = snd (snd (modeMaps Input info))"
  "priv_outputEnums info = snd (snd (modeMaps Output info))"
  by (simp_all add: modeMaps_def)

lemma modeRoots_simps: "modeRoots Input intf = inputRoots intf" "modeRoots Output intf = outputRoots intf"
  by (simp_all add: modeRoots_def)

lemma infoOk_named:
  assumes "infoOk svc info"
  shows "named Type.name (priv_inputTypes info)" "named Type.name (priv_outputTypes info)"
    "named Union.name (priv_inputUnions info)" "named Union.name (priv_outputUnions info)"
    "named Enum.name (priv_inputEnums info)" "named Enum.name (priv_outputEnums info)"
  using assms by (auto simp: infoOk_def intro: typesOk_named unionsOk_named enumsOk_named)

text \<open>
  Claim C2. In the maps the constructor returns, for a name of either of the three
  categories (the category being the one \<open>traverse\<close> resolves the name to): an entity
  reachable from the parameters and not from the return values is in the input set of its
  category and not in the output set, and the other way round; and the merged view of each
  category lists a name exactly once when it is a key of the input map, of the output map
  or of both, and not at all otherwise. Enums have no directional getter, so for them the
  directional sets are the values of the two private maps.
\<close>

theorem directional_partition_and_merged_view:
  assumes run: "newInterfaceInfo svc fuel intf = Some info"
  shows "(getTypeByName svc n = Some ty \<longrightarrow>
            (reachable svc (inputRoots intf) n \<and> \<not> reachable svc (outputRoots intf) n \<longrightarrow>
               ty \<in> set (get_inputTypes cmp info) \<and> ty \<notin> set (get_outputTypes cmp info)) \<and>
            (reachable svc (outputRoots intf) n \<and> \<not> reachable svc (inputRoots intf) n \<longrightarrow>
               ty \<in> set (get_outputTypes cmp info) \<and> ty \<notin> set (get_inputTypes cmp info))) \<and>
         (getTypeByName svc n = None \<and> getUnionByName svc n = Some un \<longrightarrow>
            (reachable svc (inputRoots intf) n \<and> \<not> reachable svc (outputRoots intf) n \<longrightarrow>
               un \<in> set (get_inputUnions cmp info) \<and> un \<notin> set (get_outputUnions cmp info)) \<and>
            (reachable svc (outputRoots intf) n \<and> \<not> reachable svc (inputRoots intf) n \<longrightarrow>
               un \<in> set (get_outputUnions cmp info) \<and> un \<notin> set (get_inputUnions cmp info))) \<and>
         (getTypeByName svc n = None \<and> getUnionByName svc n = None \<and> getEnumByName svc n = Some e \<longrightarrow>
            (reachable svc (inputRoots intf) n \<and> \<not> reachable svc (outputRoots intf) n \<longrightarrow>
               e \<in> snd ` set (priv_inputEnums info) \<and> e \<notin> snd ` set (priv_outputEnums info)) \<and>
            (reachable svc (outputRoots intf) n \<and> \<not> reachable svc (inputRoots intf) n \<longrightarrow>
               e \<in> snd ` set (priv_outputEnums info) \<and> e \<notin> snd ` set (priv_inputEnums info))) \<and>
         length (filter (\<lambda>t. Type.name t = n) (get_types cmp info))
           = (if map_has (priv_inputTypes info) n \<or> map_has (priv_outputTypes info) n then 1 else 0) \<and>
         length (filter (\<lambda>u. Union.name u = n) (get_unions cmp info))
           = (if map_has (priv_inputUnions info) n \<or> map_has (priv_outputUnions info) n then 1 else 0) \<and>
         length (filter (\<lambda>e. Enum.name e = n) (get_enums cmp info))
           = (if map_has (priv_inputEnums info) n \<or> map_has (priv_outputEnums info) n then 1 else 0)"
proof -
  have ok: "infoOk svc info" using run by (rule infoOk_closure)
  have tys: "getTypeByName svc n = Some ty \<longrightarrow>
            (reachable svc (inputRoots intf) n \<and> \<not> reachable svc (outputRoots intf) n \<longrightarrow>
               ty \<in> set (get_inputTypes cmp info) \<and> ty \<notin> set (get_outputTypes cmp info)) \<and>
            (reachable svc (outputRoots intf) n \<and> \<not> reachable svc (inputRoots intf) n \<longrightarrow>
               ty \<in> set (get_outputTypes cmp info) \<and> ty \<notin> set (get_inputTypes cmp info))"
    using types_member_iff [OF run, of n ty Input] types_member_iff [OF run, of n ty Output]
    by (simp add: set_getters modeRoots_simps)
  have uns: "getTypeByName svc n = None \<and> getUnionByName svc n = Some un \<longrightarrow>
            (reachable svc (inputRoots intf) n \<and> \<not> reachable svc (outputRoots intf) n \<longrightarrow>
               un \<in> set (get_inputUnions cmp info) \<and> un \<notin> set (get_outputUnions cmp info)) \<and>
            (reachable svc (outputRoots intf) n \<and> \<not> reachable svc (inputRoots intf) n \<longrightarrow>
               un \<in> set (get_outputUnions cmp info) \<and> un \<notin> set (get_inputUnions cmp info))"
    using unions_member_iff [OF run, of n un Input] unions_member_iff [OF run, of n un Output]
    by (simp add: set_getters modeRoots_simps)
  have ens: "getTypeByName svc n = None \<and> getUnionByName svc n = None \<and> getEnumByName svc n = Some e \<longrightarrow>
            (reachable svc (inputRoots intf) n \<and> \<not> reachable svc (outputRoots intf) n \<longrightarrow>
               e \<in> snd ` set (priv_inputEnums info) \<and> e \<notin> snd ` set (priv_outputEnums info)) \<and>
            (reachable svc (outputRoots intf) n \<and> \<not> reachable svc (inputRoots intf) n \<longrightarrow>
               e \<in> snd ` set (priv_outputEnums info) \<and> e \<notin> snd ` set (priv_inputEnums info))"
    using enums_member_iff [OF run, of n e Input] enums_member_iff [OF run, of n e Output]
    by (simp add: set_priv_enums modeRoots_simps)
  have m1: "length (filter (\<lambda>t. Type.name t = n) (get_types cmp info))
           = (if map_has (priv_inputTypes info) n \<or> map_has (priv_outputTypes info) n then 1 else 0)"
    unfolding get_types_def by (rule merged_once) (rule infoOk_named [OF ok])+
  have m2: "length (filter (\<lambda>u. Union.name u = n) (get_unions cmp info))
           = (if map_has (priv_inputUnions info) n \<or> map_has (priv_outputUnions info) n then 1 else 0)"
    unfolding get_unions_def by (rule merged_once) (rule infoOk_named [OF ok])+
  have m3: "length (filter (\<lambda>e. Enum.name e = n) (get_enums cmp info))
           = (if map_has (priv_inputEnums info) n \<or> map_has (priv_outputEnums info) n then 1 else 0)"
    unfolding get_enums_def by (rule merged_once) (rule infoOk_named [OF ok])+
  from tys uns ens m1 m2 m3 show ?thesis by (intro conjI)
qed

lemma widgetRun: "newInterfaceInfo widgetService 3 widgetInterface = Some widgetInfo"
  by (simp add: newInterfaceInfo_def init_def initMethod_def widgetService_def widgetInterface_def
      widgetType_def receiptType_def widgetInfo_def mkType_def mkProp_def mkPrimProp_def mkRef_def
      mkMethod_def mkInterface_def emptyInfo_def
      numeral_3_eq_3 visited_def map_has_def getTypeByName_def setType_def)

lemma echoRun: "newInterfaceInfo echoService 2 echoInterface = Some echoInfo"
  by (simp add: newInterfaceInfo_def init_def initMethod_def echoService_def echoInterface_def
      nodeType_def echoInfo_def mkType_def mkProp_def mkRef_def
      mkMethod_def mkInterface_def emptyInfo_def
      numeral_2_eq_2 visited_def map_has_def getTypeByName_def setType_def)

lemma widgetLookups:
  "getTypeByName widgetService ''Widget'' = Some widgetType"
  "getTypeByName widgetService ''WidgetReceipt'' = Some receiptType"
  by (simp_all add: getTypeByName_def widgetService_def widgetType_def receiptType_def mkType_def)

lemma widgetRoots:
  "inputRoots widgetInterface = {''Widget''}" "outputRoots widgetInterface = {''WidgetReceipt''}"
  by (auto simp: inputRoots_def outputRoots_def widgetInterface_def mkInterface_def mkMethod_def
      mkProp_def mkRef_def)

lemma widgetReferences:
  "references widgetService ''Widget'' = []" "references widgetService ''WidgetReceipt'' = []"
  by (simp_all add: references_def widgetLookups)
     (simp_all add: widgetType_def receiptType_def mkType_def mkPrimProp_def)

lemma widgetReach:
  "reachable widgetService {''Widget''} n \<longleftrightarrow> n = ''Widget''"
  "reachable widgetService {''WidgetReceipt''} n \<longleftrightarrow> n = ''WidgetReceipt''"
proof -
  have a: "n = ''Widget''" if "reachable widgetService {''Widget''} n"
    using that by (induction rule: reachable.induct) (auto simp: widgetReferences)
  have b: "n = ''WidgetReceipt''" if "reachable widgetService {''WidgetReceipt''} n"
    using that by (induction rule: reachable.induct) (auto simp: widgetReferences)
  show "reachable widgetService {''Widget''} n \<longleftrightarrow> n = ''Widget''"
    using a by (auto intro: reachable.root)
  show "reachable widgetService {''WidgetReceipt''} n \<longleftrightarrow> n = ''WidgetReceipt''"
    using b by (auto intro: reachable.root)
qed

text \<open>
  The scenario of the claim, \<open>create(input: Widget): WidgetReceipt\<close>, and a type that is
  on both sides, listed once in the merged view.
\<close>

theorem directional_partition_and_merged_view_witness:
  "newInterfaceInfo widgetService 3 widgetInterface = Some widgetInfo \<and>
   getTypeByName widgetService ''Widget'' = Some widgetType \<and>
   reachable widgetService (inputRoots widgetInterface) ''Widget'' \<and>
   \<not> reachable widgetService (outputRoots widgetInterface) ''Widget'' \<and>
   widgetType \<in> set (get_inputTypes default widgetInfo) \<and>
   widgetType \<notin> set (get_outputTypes default widgetInfo) \<and>
   get_inputTypes default widgetInfo = [widgetType] \<and>
   get_outputTypes default widgetInfo = [receiptType] \<and>
   get_types default widgetInfo = [widgetType, receiptType] \<and>
   newInterfaceInfo echoService 2 echoInterface = Some echoInfo \<and>
   map_has (priv_inputTypes echoInfo) ''Node'' \<and> map_has (priv_outputTypes echoInfo) ''Node'' \<and>
   length (filter (\<lambda>t. Type.name t = ''Node'') (get_types default echoInfo)) = 1"
proof -
  note w = directional_partition_and_merged_view [OF widgetRun,
      of "''Widget''" widgetType default undefined undefined]
  note e = directional_partition_and_merged_view [OF echoRun,
      of "''Node''" undefined default undefined undefined]
  have r1: "reachable widgetService (inputRoots widgetInterface) ''Widget''"
    and r2: "\<not> reachable widgetService (outputRoots widgetInterface) ''Widget''"
    by (simp_all add: widgetRoots widgetReach)
  have part: "widgetType \<in> set (get_inputTypes default widgetInfo) \<and>
              widgetType \<notin> set (get_outputTypes default widgetInfo)"
    using w widgetLookups(1) r1 r2 by blast
  have both: "map_has (priv_inputTypes echoInfo) ''Node'' \<and> map_has (priv_outputTypes echoInfo) ''Node''"
    by (simp add: echoInfo_def emptyInfo_def map_has_def)
  have once: "length (filter (\<lambda>t. Type.name t = ''Node'') (get_types default echoInfo)) = 1"
    using e both by simp
  have lists: "get_inputTypes default widgetInfo = [widgetType] \<and>
     get_outputTypes default widgetInfo = [receiptType] \<and>
     get_types default widgetInfo = [widgetType, receiptType]"
    by (simp add: get_inputTypes_def get_outputTypes_def get_types_def mergedView_def jsSort_def
        map_values_def map_keys_def map_get_def keySet_def widgetInfo_def emptyInfo_def)
  show ?thesis using widgetRun widgetLookups(1) r1 r2 part lists echoRun both once by simp
qed

subsection \<open>Resolution priority\<close>

lemma recorded_category:
  assumes ok: "infoOk svc info" and vis: "visited mode info n"
  shows "(case getTypeByName svc n of
            Some ty \<Rightarrow> map_get (fst (modeMaps mode info)) n = Some ty
                        \<and> \<not> map_has (fst (snd (modeMaps mode info))) n
                        \<and> \<not> map_has (snd (snd (modeMaps mode info))) n
          | None \<Rightarrow>
             (case getUnionByName svc n of
                Some un \<Rightarrow> map_get (fst (snd (modeMaps mode info))) n = Some un
                            \<and> \<not> map_has (fst (modeMaps mode info)) n
                            \<and> \<not> map_has (snd (snd (modeMaps mode info))) n
              | None \<Rightarrow>
                 (case getEnumByName svc n of
                    Some e \<Rightarrow> map_get (snd (snd (modeMaps mode info))) n = Some e
                               \<and> \<not> map_has (fst (modeMaps mode info)) n
                               \<and> \<not> map_has (fst (snd (modeMaps mode info))) n
                  | None \<Rightarrow> False)))"
proof -
  let ?t = "fst (modeMaps mode info)" and ?u = "fst (snd (modeMaps mode info))"
    and ?e = "snd (snd (modeMaps mode info))"
  note mo = modeOk [OF ok, of mode]
  have dt: "distinct (map fst ?t)" and du: "distinct (map fst ?u)" and de: "distinct (map fst ?e)"
    using mo by (simp_all add: typesOk_def unionsOk_def enumsOk_def)
  note kt = typesOk_key [of svc ?t n] and ku = unionsOk_key [of svc ?u n] and ke = enumsOk_key [of svc ?e n]
  from vis have cases: "n \<in> fst ` set ?t \<or> n \<in> fst ` set ?u \<or> n \<in> fst ` set ?e"
    by (simp add: visited_cases)
  show ?thesis
  proof (cases "getTypeByName svc n")
    case (Some ty)
    with ku ke mo have nu: "n \<notin> fst ` set ?u" and ne: "n \<notin> fst ` set ?e" by auto
    with cases have "n \<in> fst ` set ?t" by simp
    with kt mo Some have "(n, ty) \<in> set ?t" by auto
    with dt have "map_of ?t n = Some ty" by simp
    with Some nu ne show ?thesis by (simp add: map_get_def map_has_def)
  next
    case tnone: None
    with kt mo have nt: "n \<notin> fst ` set ?t" by auto
    show ?thesis
    proof (cases "getUnionByName svc n")
      case (Some un)
      with ke mo have ne: "n \<notin> fst ` set ?e" by auto
      with cases nt have "n \<in> fst ` set ?u" by simp
      with ku mo Some have "(n, un) \<in> set ?u" by auto
      with du have "map_of ?u n = Some un" by simp
      with tnone Some nt ne show ?thesis by (simp add: map_get_def map_has_def)
    next
      case unone: None
      with ku mo have nu: "n \<notin> fst ` set ?u" by auto
      with cases nt have "n \<in> fst ` set ?e" by simp
      with ke mo obtain e where e: "getEnumByName svc n = Some e" "(n, e) \<in> set ?e" by auto
      with de have "map_of ?e n = Some e" by simp
      with tnone unone e nt nu show ?thesis by (simp add: map_get_def map_has_def)
    qed
  qed
qed

text \<open>
  Claim C3, as the code has it. For every name that the traversal of a mode reaches, the
  name is resolved in the order Type, Union, Enum: when a Type carries the name it is
  recorded among the types and in no other map; otherwise, when a Union carries it, among
  the unions only; otherwise, when an Enum carries it, among the enums only; and a name
  that resolves to nothing is recorded nowhere. So the Type wins over both, and a name that
  is both an Enum and a Union resolves to the Union.
\<close>

theorem resolution_priority_type_union_enum:
  assumes run: "newInterfaceInfo svc fuel intf = Some info"
    and reach: "reachable svc (modeRoots mode intf) n"
  shows "(case getTypeByName svc n of
            Some ty \<Rightarrow> map_get (fst (modeMaps mode info)) n = Some ty
                        \<and> \<not> map_has (fst (snd (modeMaps mode info))) n
                        \<and> \<not> map_has (snd (snd (modeMaps mode info))) n
          | None \<Rightarrow>
             (case getUnionByName svc n of
                Some un \<Rightarrow> map_get (fst (snd (modeMaps mode info))) n = Some un
                            \<and> \<not> map_has (fst (modeMaps mode info)) n
                            \<and> \<not> map_has (snd (snd (modeMaps mode info))) n
              | None \<Rightarrow>
                 (case getEnumByName svc n of
                    Some e \<Rightarrow> map_get (snd (snd (modeMaps mode info))) n = Some e
                               \<and> \<not> map_has (fst (modeMaps mode info)) n
                               \<and> \<not> map_has (fst (snd (modeMaps mode info))) n
                  | None \<Rightarrow> \<not> visited mode info n)))"
proof (cases "resolves svc n")
  case True
  have ok: "infoOk svc info" using run by (rule infoOk_closure)
  have vis: "visited mode info n" using closure_visited_iff [OF run, of mode n] reach True by simp
  from recorded_category [OF ok vis] show ?thesis
    by (auto split: option.splits)
next
  case False
  then have none: "getTypeByName svc n = None" "getUnionByName svc n = None" "getEnumByName svc n = None"
    by (simp_all add: resolves_def)
  have "\<not> visited mode info n" using closure_visited_iff [OF run, of mode n] False by simp
  with none show ?thesis by simp
qed

lemma clashRun: "newInterfaceInfo clashService 2 clashInterface = Some clashInfo"
  by (simp add: newInterfaceInfo_def init_def initMethod_def clashService_def clashInterface_def
      clashType_def clashUnion_def clashEnum_def clashEnumY_def clashInfo_def mkType_def mkProp_def
      mkPrim_def mkMethod_def mkInterface_def emptyInfo_def
      numeral_2_eq_2 visited_def map_has_def getTypeByName_def getUnionByName_def getEnumByName_def
      setType_def setUnion_def)

lemma clashLookups:
  "getTypeByName clashService ''X'' = None" "getUnionByName clashService ''X'' = Some clashUnion"
  "getEnumByName clashService ''X'' = Some clashEnum"
  "getTypeByName clashService ''Y'' = Some clashType"
  "getEnumByName clashService ''Y'' = Some clashEnumY"
  by (simp_all add: getTypeByName_def getUnionByName_def getEnumByName_def clashService_def
      clashType_def clashUnion_def clashEnum_def clashEnumY_def mkType_def)

text \<open>
  Claim C3 as stated has the Enum win over the Union. In the service where \<open>X\<close> names
  both, the parameter of type \<open>X\<close> is recorded as the Union and not as the Enum.
\<close>

theorem enum_before_union_counterexample:
  "getEnumByName clashService ''X'' = Some clashEnum \<and>
   getUnionByName clashService ''X'' = Some clashUnion \<and>
   newInterfaceInfo clashService 2 clashInterface = Some clashInfo \<and>
   map_get (priv_inputUnions clashInfo) ''X'' = Some clashUnion \<and>
   \<not> map_has (priv_inputEnums clashInfo) ''X''"
  using clashRun clashLookups
  by (simp add: clashInfo_def emptyInfo_def map_get_def map_has_def)

text \<open>The same service: \<open>X\<close> goes to the unions, \<open>Y\<close> (a Type and an Enum) to the types.\<close>

theorem resolution_priority_type_union_enum_witness:
  "newInterfaceInfo clashService 2 clashInterface = Some clashInfo \<and>
   reachable clashService (modeRoots Input clashInterface) ''X'' \<and>
   reachable clashService (modeRoots Input clashInterface) ''Y'' \<and>
   getTypeByName clashService ''X'' = None \<and>
   getUnionByName clashService ''X'' = Some clashUnion \<and>
   getEnumByName clashService ''X'' = Some clashEnum \<and>
   map_get (fst (snd (modeMaps Input clashInfo))) ''X'' = Some clashUnion \<and>
   \<not> map_has (snd (snd (modeMaps Input clashInfo))) ''X'' \<and>
   getTypeByName clashService ''Y'' = Some clashType \<and>
   getEnumByName clashService ''Y'' = Some clashEnumY \<and>
   map_get (fst (modeMaps Input clashInfo)) ''Y'' = Some clashType \<and>
   \<not> map_has (snd (snd (modeMaps Input clashInfo))) ''Y''"
proof -
  have roots: "modeRoots Input clashInterface = {''X'', ''Y''}"
    by (auto simp: modeRoots_methodRoots methodRoots_def clashInterface_def mkInterface_def
        mkMethod_def mkProp_def)
  have rx: "reachable clashService (modeRoots Input clashInterface) ''X''"
    and ry: "reachable clashService (modeRoots Input clashInterface) ''Y''"
    by (rule reachable.root, simp add: roots)+
  from resolution_priority_type_union_enum [OF clashRun rx]
  have x: "map_get (fst (snd (modeMaps Input clashInfo))) ''X'' = Some clashUnion \<and>
           \<not> map_has (snd (snd (modeMaps Input clashInfo))) ''X''"
    by (simp add: clashLookups)
  from resolution_priority_type_union_enum [OF clashRun ry]
  have y: "map_get (fst (modeMaps Input clashInfo)) ''Y'' = Some clashType \<and>
           \<not> map_has (snd (snd (modeMaps Input clashInfo))) ''Y''"
    by (simp add: clashLookups)
  show ?thesis using clashRun rx ry clashLookups x y by simp
qed

section \<open>Properties of the document renderer\<close>

subsection \<open>The one-line call signature\<close>

text \<open>
  Claim C10. For a method with an empty parameter list the one-line call signature is
  exactly the method's name as the name factory gives it: no parentheses, no braces and no
  \<open>| undefined\<close> behind it. With at least one parameter it is the name followed by the
  parenthesised parameter object, with \<open>| undefined\<close> exactly when no parameter is
  required; and the signature continues behind the name with an opening parenthesis only
  when the method has a parameter.
\<close>

theorem method_definition_without_parameters_is_the_name:
  "(parameters method = [] \<longrightarrow>
      buildMethodDefinition ext method = buildMethodName ext method) \<and>
   (parameters method \<noteq> [] \<longrightarrow>
      buildMethodDefinition ext method =
        buildMethodName ext method @ ''({''
        @ join '', '' (map (\<lambda>param. buildParameterName ext param
                                    @ (if isRequired ext param then '''' else ''?''))
                        (sortParameters ext (parameters method)))
        @ ''}''
        @ (if \<exists>param \<in> set (parameters method). isRequired ext param then '''' else '' | undefined'')
        @ '')'') \<and>
   ((\<exists>rest. buildMethodDefinition ext method = buildMethodName ext method @ ''('' @ rest)
      \<longleftrightarrow> parameters method \<noteq> [])"
proof (cases "parameters method = []")
  case True
  then have eq: "buildMethodDefinition ext method = buildMethodName ext method"
    by (simp add: buildMethodDefinition_def)
  have "\<not> (\<exists>rest. buildMethodDefinition ext method = buildMethodName ext method @ ''('' @ rest)"
    unfolding eq by simp
  with True eq show ?thesis by simp
next
  case False
  then have eq: "buildMethodDefinition ext method =
        buildMethodName ext method @ ''({''
        @ join '', '' (map (\<lambda>param. buildParameterName ext param
                                    @ (if isRequired ext param then '''' else ''?''))
                        (sortParameters ext (parameters method)))
        @ ''}''
        @ (if \<exists>param \<in> set (parameters method). isRequired ext param then '''' else '' | undefined'')
        @ '')''"
    by (simp add: buildMethodDefinition_def list_ex_iff)
  then have "\<exists>rest. buildMethodDefinition ext method = buildMethodName ext method @ ''('' @ rest"
    by simp
  with False eq show ?thesis by simp
qed

text \<open>\<open>ping\<close>, \<open>create({a, b?})\<close> and \<open>list({limit?} | undefined)\<close>.\<close>

theorem method_definition_without_parameters_is_the_name_witness:
  "parameters pingMethod = [] \<and>
   buildMethodDefinition exampleExt pingMethod = ''ping'' \<and>
   parameters createMethod \<noteq> [] \<and>
   buildMethodDefinition exampleExt createMethod = ''create({a, b?})'' \<and>
   parameters listMethod \<noteq> [] \<and>
   buildMethodDefinition exampleExt listMethod = ''list({limit?} | undefined)''"
proof -
  have p: "parameters pingMethod = []" by (simp add: pingMethod_def mkMethod_def)
  have c: "parameters createMethod \<noteq> []" by (simp add: createMethod_def mkMethod_def)
  have l: "parameters listMethod \<noteq> []" by (simp add: listMethod_def mkMethod_def)
  from method_definition_without_parameters_is_the_name [of pingMethod exampleExt] p
  have 1: "buildMethodDefinition exampleExt pingMethod = ''ping''"
    by (simp add: exampleExt_def pingMethod_def mkMethod_def)
  from method_definition_without_parameters_is_the_name [of createMethod exampleExt] c
  have 2: "buildMethodDefinition exampleExt createMethod = ''create({a, b?})''"
    by (simp add: exampleExt_def createMethod_def mkMethod_def sortParameters_def jsSort_def
        mkPrimProp_def requiredProp_def)
  from method_definition_without_parameters_is_the_name [of listMethod exampleExt] l
  have 3: "buildMethodDefinition exampleExt listMethod = ''list({limit?} | undefined)''"
    by (simp add: exampleExt_def listMethod_def mkMethod_def sortParameters_def jsSort_def
        mkPrimProp_def)
  from p c l 1 2 3 show ?thesis by simp
qed

subsection \<open>Validation rule bullets\<close>

lemma buildRules_append: "buildRules (xs @ ys) = buildRules xs @ buildRules ys"
  by (induction xs) simp_all

text \<open>
  Claim C7, as the code has it. The bullets of a list of rules are the bullets of its
  rules in their declared order. A rule of one of the eleven kinds of the table gives one
  line: the list marker \<open>  - \<close>, the fixed text of the table, and the parameter enclosed in
  backticks (array-unique-items has no parameter and gives the text alone); a rule of any
  other kind gives no line.
\<close>

theorem rule_bullets_follow_the_table:
  "buildRules rs =
     concat (map (\<lambda>rule. case specTemplate rule of
                            None \<Rightarrow> []
                          | Some (text, None) \<Rightarrow> [''  - '' @ text]
                          | Some (text, Some p) \<Rightarrow> [''  - '' @ text @ ''`'' @ p @ ''`''])
              rs)"
proof (induction rs)
  case Nil
  show ?case by simp
next
  case (Cons rule rs)
  show ?case by (cases rule) (simp_all add: Cons.IH specTemplate_def)
qed

text \<open>
  Claim C7 as stated has a string-pattern rule with pattern \<open>^[a-z]+$\<close> render the text
  of the table with the pattern behind it. The code puts the pattern between backticks, so
  its line is neither that text nor that text behind a list marker.
\<close>

theorem rule_bullet_text_counterexample:
  "specBullet (StringPattern ''^[a-z]+$'') = Some ''Must match pattern: ^[a-z]+$'' \<and>
   buildRules [StringPattern ''^[a-z]+$''] = [''  - Must match pattern: `^[a-z]+$`''] \<and>
   buildRules [StringPattern ''^[a-z]+$''] \<noteq> [''Must match pattern: ^[a-z]+$''] \<and>
   buildRules [StringPattern ''^[a-z]+$''] \<noteq> [''  - Must match pattern: ^[a-z]+$'']"
  by (simp add: specBullet_def specTemplate_def)

text \<open>A list with a rule of an unknown kind in the middle: two bullets, in order.\<close>

theorem rule_bullets_follow_the_table_witness:
  "buildRules [StringMaxLength ''8'', OtherRule ''string-format'', ArrayUniqueItems]
     = [''  - Max length: `8`'', ''  - Values must be unique'']"
  using rule_bullets_follow_the_table
    [of "[StringMaxLength ''8'', OtherRule ''string-format'', ArrayUniqueItems]"]
  by (simp add: specTemplate_def)

subsection \<open>The rendering depth\<close>

lemma those_Some_iff: "those xs = Some ys \<longleftrightarrow> xs = map Some ys"
proof (induction xs arbitrary: ys)
  case Nil
  show ?case by auto
next
  case (Cons x xs)
  show ?case
  proof (cases x)
    case None
    then show ?thesis by auto
  next
    case (Some a)
    then show ?thesis using Cons.IH by (cases ys) (auto split: option.splits)
  qed
qed
















lemma buildInterfaceDocs_Some:
  "buildInterfaceDocs ext svc fuel intf = Some doc \<longleftrightarrow>
   (\<exists>tys ens toc methodDocs typeDocs.
      Builder_types ext svc fuel intf = Some tys \<and>
      Builder_enums ext svc fuel intf = Some ens \<and>
      buildToc ext svc fuel intf = Some toc \<and>
      those (map (buildMethodDocs ext svc fuel) (Builder_methods ext intf)) = Some methodDocs \<and>
      those (map (buildTypeDocs ext svc fuel) tys) = Some typeDocs \<and>
      doc = headLines ext svc intf @ toc @ ['''']
            @ sectionLines ''## Methods'' (Builder_methods ext intf) methodDocs
            @ sectionLines ''## Types'' tys typeDocs
            @ sectionLines ''## Enums'' ens (map (buildEnumDocs ext) ens))"
  by (auto simp: buildInterfaceDocs_def bind_eq_Some_conv)



subsection \<open>References to unions\<close>










subsection \<open>The layout of a document\<close>

lemma jsSort_sorted_id: "Sorting_Algorithms.sorted cmp xs \<Longrightarrow> jsSort cmp xs = xs"
proof (induction xs)
  case Nil
  show ?case by (simp add: jsSort_def)
next
  case (Cons x xs)
  from Cons.prems have "Sorting_Algorithms.sorted cmp xs" by (rule sorted_Cons_imp_sorted)
  with Cons.IH have "jsSort cmp xs = xs" by simp
  then have "jsSort cmp (x # xs) = insort cmp x xs" by (simp add: jsSort_def)
  also have "\<dots> = x # xs" using Cons.prems by (cases xs) simp_all
  finally show ?case .
qed

lemma get_types_sorted:
  "newInterfaceInfo svc fuel intf = Some info \<Longrightarrow>
   Sorting_Algorithms.sorted (Comparator.key Type.name cmp) (get_types cmp info)"
  unfolding get_types_def
  using infoOk_named [OF infoOk_closure] by (intro merged_sorted) blast+

lemma get_unions_sorted:
  "newInterfaceInfo svc fuel intf = Some info \<Longrightarrow>
   Sorting_Algorithms.sorted (Comparator.key Union.name cmp) (get_unions cmp info)"
  unfolding get_unions_def
  using infoOk_named [OF infoOk_closure] by (intro merged_sorted) blast+

lemma get_enums_sorted:
  "newInterfaceInfo svc fuel intf = Some info \<Longrightarrow>
   Sorting_Algorithms.sorted (Comparator.key Enum.name cmp) (get_enums cmp info)"
  unfolding get_enums_def
  using infoOk_named [OF infoOk_closure] by (intro merged_sorted) blast+

lemma Builder_types_run:
  "newInterfaceInfo svc fuel intf = Some info \<Longrightarrow>
   Builder_types ext svc fuel intf = Some (get_types (localeCompare ext) info)"
  using jsSort_sorted_id [OF get_types_sorted] by (simp add: Builder_types_def)

lemma Builder_enums_run:
  "newInterfaceInfo svc fuel intf = Some info \<Longrightarrow>
   Builder_enums ext svc fuel intf = Some (get_enums (localeCompare ext) info)"
  using jsSort_sorted_id [OF get_enums_sorted] by (simp add: Builder_enums_def)


lemma buildProperty_Some:
  "buildProperty ext svc fuel p = Some ls \<longleftrightarrow>
   (\<exists>linked. buildLinkedTypeName ext svc fuel (TypedValue.truncate p) = Some linked \<and>
      ls = (''- `'' @ buildPropertyName ext p @ ''` '' @ linked
              @ (if isRequired ext p then '''' else '' (optional)'')
              @ buildParameterDescription (Property.description p))
           # buildRules (rules p))"
  by (auto simp: buildProperty_def bind_eq_Some_conv)



lemma buildMethodDocs_Some:
  "buildMethodDocs ext svc fuel m = Some d \<longleftrightarrow>
   (\<exists>params returns.
      parameterLines ext svc fuel m = Some params \<and>
      returnsLines ext svc fuel m = Some returns \<and>
      d = [''### '' @ buildMethodName ext m, '''', ''`'' @ buildMethodDefinition ext m @ ''`'']
          @ params @ returns @ descriptionLines (Method.description m) @ [''''])"
  by (auto simp: buildMethodDocs_def bind_eq_Some_conv)

lemma propertyLines_Some:
  "propertyLines ext svc fuel ty = Some ls \<longleftrightarrow>
   (\<exists>props. map (buildProperty ext svc fuel) (properties ty) = map Some props \<and>
      ls = (if properties ty \<noteq> [] then '''' # concat props else []))"
proof (cases "properties ty = []")
  case True
  then show ?thesis by (auto simp: propertyLines_def)
next
  case False
  then show ?thesis by (auto simp: propertyLines_def those_Some_iff)
qed

lemma mapPropertiesLines_Some:
  "mapPropertiesLines ext svc fuel ty = Some ls \<longleftrightarrow>
   (case mapProperties ty of
      None \<Rightarrow> ls = []
    | Some mp \<Rightarrow> (\<exists>k v. buildLinkedTypeName ext svc fuel (key mp) = Some k \<and>
         buildLinkedTypeName ext svc fuel (value mp) = Some v \<and>
         ls = ['''', ''#### Map Properties'', '''', ''- Keys: '' @ k, ''- Values: '' @ v]))"
  by (auto simp: mapPropertiesLines_def bind_eq_Some_conv split: option.splits)

lemma buildTypeDocs_Some:
  "buildTypeDocs ext svc fuel ty = Some ls \<longleftrightarrow>
   (\<exists>props mapProps.
      propertyLines ext svc fuel ty = Some props \<and>
      mapPropertiesLines ext svc fuel ty = Some mapProps \<and>
      ls = [''### '' @ pascal ext (Type.name ty), '''', ''`'' @ pascal ext (Type.name ty) @ ''`'']
           @ descriptionLines (Type.description ty) @ props @ mapProps @ [''''])"
  by (auto simp: buildTypeDocs_def bind_eq_Some_conv)





text \<open>
  The document of a run that returns, line by line down to the documents of the single
  methods, types and enums; and the converse.
\<close>

lemma document_layout:
  assumes run: "newInterfaceInfo svc fuel intf = Some info"
  shows "buildInterfaceDocs ext svc fuel intf = Some doc \<longleftrightarrow>
    (\<exists>methodDocs typeDocs.
       map (buildMethodDocs ext svc fuel) (Builder_methods ext intf) = map Some methodDocs \<and>
       map (buildTypeDocs ext svc fuel) (get_types (localeCompare ext) info) = map Some typeDocs \<and>
       doc = [''<!--''] @ warning ext svc
             @ [''--->'', '''', ''# '' @ title ext (buildInterfaceName ext intf), '''']
             @ buildInterfaceDescription intf
             @ (if Builder_methods ext intf \<noteq> []
                then ''- Methods'' # map (\<lambda>m. ''  - ['' @ buildMethodName ext m @ '']('' @ anchor (buildMethodName ext m) @ '')'')
                                       (Builder_methods ext intf)
                else [])
             @ (if get_types (localeCompare ext) info \<noteq> []
                then ''- Types'' # map (\<lambda>t. ''  - ['' @ pascal ext (Type.name t) @ '']('' @ anchor (Type.name t) @ '')'')
                                     (get_types (localeCompare ext) info)
                else [])
             @ (if get_enums (localeCompare ext) info \<noteq> []
                then ''- Enums'' # map (\<lambda>e. ''  - ['' @ pascal ext (Enum.name e) @ '']('' @ anchor (Enum.name e) @ '')'')
                                     (get_enums (localeCompare ext) info)
                else [])
             @ ['''']
             @ (if Builder_methods ext intf \<noteq> [] then [''## Methods'', ''''] @ concat methodDocs else [])
             @ (if get_types (localeCompare ext) info \<noteq> [] then [''## Types'', ''''] @ concat typeDocs else [])
             @ (if get_enums (localeCompare ext) info \<noteq> []
                then [''## Enums'', ''''] @ concat (map (buildEnumDocs ext) (get_enums (localeCompare ext) info))
                else []))"
proof -
  have toc: "buildToc ext svc fuel intf =
      Some (tocLines ext (Builder_methods ext intf) (get_types (localeCompare ext) info)
              (get_enums (localeCompare ext) info))"
    by (simp add: buildToc_def Builder_types_run [OF run] Builder_enums_run [OF run])
  have fn: "tocMethod ext = (\<lambda>m. ''  - ['' @ buildMethodName ext m @ '']('' @ anchor (buildMethodName ext m) @ '')'')"
    "tocType ext = (\<lambda>t. ''  - ['' @ pascal ext (Type.name t) @ '']('' @ anchor (Type.name t) @ '')'')"
    "tocEnum ext = (\<lambda>e. ''  - ['' @ pascal ext (Enum.name e) @ '']('' @ anchor (Enum.name e) @ '')'')"
    by (simp_all add: fun_eq_iff tocMethod_def tocType_def tocEnum_def)
  show ?thesis
    unfolding buildInterfaceDocs_Some Builder_types_run [OF run] Builder_enums_run [OF run] toc
      those_Some_iff tocLines_def headLines_def sectionLines_def fn
    by simp
qed










lemma typeName_truncate [simp]: "typeName (TypedValue.truncate q) = typeName q"
  by (simp add: TypedValue.truncate_def)

lemma methodDocs_heads:
  assumes "map (buildMethodDocs ext svc fuel) ms = map Some methodDocs"
  shows "map (take 3) methodDocs =
           map (\<lambda>m. [''### '' @ buildMethodName ext m, '''', ''`'' @ buildMethodDefinition ext m @ ''`'']) ms"
  using assms
proof (induction ms arbitrary: methodDocs)
  case Nil
  then show ?case by simp
next
  case (Cons m ms)
  from Cons.prems obtain d ds where mds: "methodDocs = d # ds"
    and d: "buildMethodDocs ext svc fuel m = Some d"
    and ds: "map (buildMethodDocs ext svc fuel) ms = map Some ds"
    by (cases methodDocs) auto
  from d have "take 3 d = [''### '' @ buildMethodName ext m, '''', ''`'' @ buildMethodDefinition ext m @ ''`'']"
    unfolding buildMethodDocs_Some by auto
  with Cons.IH [OF ds] mds show ?case by simp
qed

lemma typeDocs_heads:
  assumes "map (buildTypeDocs ext svc fuel) tys = map Some typeDocs"
  shows "map (take 3) typeDocs =
           map (\<lambda>t. [''### '' @ pascal ext (Type.name t), '''', ''`'' @ pascal ext (Type.name t) @ ''`'']) tys"
  using assms
proof (induction tys arbitrary: typeDocs)
  case Nil
  then show ?case by simp
next
  case (Cons t tys)
  from Cons.prems obtain d ds where tds: "typeDocs = d # ds"
    and d: "buildTypeDocs ext svc fuel t = Some d"
    and ds: "map (buildTypeDocs ext svc fuel) tys = map Some ds"
    by (cases typeDocs) auto
  from d have "take 3 d = [''### '' @ pascal ext (Type.name t), '''', ''`'' @ pascal ext (Type.name t) @ ''`'']"
    unfolding buildTypeDocs_Some by auto
  with Cons.IH [OF ds] tds show ?case by simp
qed

lemma enumDocs_head:
  "take 3 (buildEnumDocs ext e) =
     [''### '' @ pascal ext (Enum.name e), '''', ''`'' @ pascal ext (Enum.name e) @ ''`'']"
  by (simp add: buildEnumDocs_def)

lemma enumDocs_values:
  "v \<in> set (values e) \<Longrightarrow>
   (''- `'' @ v @ ''`'' @ valueDescriptionSuffix ext e v) \<in> set (buildEnumDocs ext e)"
  by (auto simp: buildEnumDocs_def)


subsection \<open>Dangling references\<close>





subsection \<open>Ordering\<close>

lemma document_run_info:
  assumes doc: "buildInterfaceDocs ext svc fuel intf = Some doc"
    and run: "newInterfaceInfo svc k intf = Some info"
  shows "newInterfaceInfo svc fuel intf = Some info"
proof -
  from doc obtain tys where "Builder_types ext svc fuel intf = Some tys"
    unfolding buildInterfaceDocs_Some by blast
  then obtain info' where i: "newInterfaceInfo svc fuel intf = Some info'"
    by (auto simp: Builder_types_def split: option.splits)
  have "newInterfaceInfo svc (max fuel k) intf = Some info'"
    by (rule newInterfaceInfo_fuel_mono [OF i]) simp
  moreover have "newInterfaceInfo svc (max fuel k) intf = Some info"
    by (rule newInterfaceInfo_fuel_mono [OF run]) simp
  ultimately show ?thesis using i by simp
qed

text \<open>
  Claim C4. With \<open>localeCompare\<close> any comparator: every collection the closure resolver
  exposes (the merged, input and output types and unions, and the merged enums; the class
  has no getters for input and output enums) is sorted ascending by entity name, and the
  methods of the renderer are the interface's methods sorted ascending by name. Every
  document the renderer returns is built from these sorted lists: the renderer's closure
  types and enums are the resolver's merged lists, the table of contents has one entry
  for each method, then for each type, then for each enum, in the order of the lists, and
  the sections hold the documents of the methods, of the types and of the enums one after
  the other in the same order, every one beginning with the heading of its entity. The
  document of a type holds the lines of its properties in their declared order, each
  property's line followed by the bullets of its rules.
\<close>

theorem collections_and_sections_are_sorted_by_name:
  assumes run: "newInterfaceInfo svc k intf = Some info"
  shows "Sorting_Algorithms.sorted (Comparator.key Type.name (localeCompare ext)) (get_types (localeCompare ext) info) \<and>
         Sorting_Algorithms.sorted (Comparator.key Type.name (localeCompare ext)) (get_inputTypes (localeCompare ext) info) \<and>
         Sorting_Algorithms.sorted (Comparator.key Type.name (localeCompare ext)) (get_outputTypes (localeCompare ext) info) \<and>
         Sorting_Algorithms.sorted (Comparator.key Union.name (localeCompare ext)) (get_unions (localeCompare ext) info) \<and>
         Sorting_Algorithms.sorted (Comparator.key Union.name (localeCompare ext)) (get_inputUnions (localeCompare ext) info) \<and>
         Sorting_Algorithms.sorted (Comparator.key Union.name (localeCompare ext)) (get_outputUnions (localeCompare ext) info) \<and>
         Sorting_Algorithms.sorted (Comparator.key Enum.name (localeCompare ext)) (get_enums (localeCompare ext) info) \<and>
         Sorting_Algorithms.sorted (Comparator.key Method.name (localeCompare ext)) (Builder_methods ext intf) \<and>
         mset (Builder_methods ext intf) = mset (methods intf) \<and>
         (\<forall>fuel doc. buildInterfaceDocs ext svc fuel intf = Some doc \<longrightarrow>
            Builder_types ext svc fuel intf = Some (get_types (localeCompare ext) info) \<and>
            Builder_enums ext svc fuel intf = Some (get_enums (localeCompare ext) info) \<and>
            (\<exists>methodDocs typeDocs.
               map (buildMethodDocs ext svc fuel) (Builder_methods ext intf) = map Some methodDocs \<and>
               map (buildTypeDocs ext svc fuel) (get_types (localeCompare ext) info) = map Some typeDocs \<and>
               doc = [''<!--''] @ warning ext svc
                     @ [''--->'', '''', ''# '' @ title ext (buildInterfaceName ext intf), '''']
                     @ buildInterfaceDescription intf
                     @ (if Builder_methods ext intf \<noteq> []
                        then ''- Methods'' # map (\<lambda>m. ''  - ['' @ buildMethodName ext m @ '']('' @ anchor (buildMethodName ext m) @ '')'')
                                               (Builder_methods ext intf)
                        else [])
                     @ (if get_types (localeCompare ext) info \<noteq> []
                        then ''- Types'' # map (\<lambda>t. ''  - ['' @ pascal ext (Type.name t) @ '']('' @ anchor (Type.name t) @ '')'')
                                             (get_types (localeCompare ext) info)
                        else [])
                     @ (if get_enums (localeCompare ext) info \<noteq> []
                        then ''- Enums'' # map (\<lambda>e. ''  - ['' @ pascal ext (Enum.name e) @ '']('' @ anchor (Enum.name e) @ '')'')
                                             (get_enums (localeCompare ext) info)
                        else [])
                     @ ['''']
                     @ (if Builder_methods ext intf \<noteq> [] then [''## Methods'', ''''] @ concat methodDocs else [])
                     @ (if get_types (localeCompare ext) info \<noteq> [] then [''## Types'', ''''] @ concat typeDocs else [])
                     @ (if get_enums (localeCompare ext) info \<noteq> []
                        then [''## Enums'', ''''] @ concat (map (buildEnumDocs ext) (get_enums (localeCompare ext) info))
                        else []) \<and>
               map (take 3) methodDocs =
                 map (\<lambda>m. [''### '' @ buildMethodName ext m, '''', ''`'' @ buildMethodDefinition ext m @ ''`''])
                   (Builder_methods ext intf) \<and>
               map (take 3) typeDocs =
                 map (\<lambda>t. [''### '' @ pascal ext (Type.name t), '''', ''`'' @ pascal ext (Type.name t) @ ''`''])
                   (get_types (localeCompare ext) info) \<and>
               map (\<lambda>e. take 3 (buildEnumDocs ext e)) (get_enums (localeCompare ext) info) =
                 map (\<lambda>e. [''### '' @ pascal ext (Enum.name e), '''', ''`'' @ pascal ext (Enum.name e) @ ''`''])
                   (get_enums (localeCompare ext) info))) \<and>
         (\<forall>fuel ty d. buildTypeDocs ext svc fuel ty = Some d \<longrightarrow>
            (\<exists>props mapProps.
               map (buildProperty ext svc fuel) (properties ty) = map Some props \<and>
               mapPropertiesLines ext svc fuel ty = Some mapProps \<and>
               d = [''### '' @ pascal ext (Type.name ty), '''', ''`'' @ pascal ext (Type.name ty) @ ''`'']
                   @ descriptionLines (Type.description ty)
                   @ (if properties ty \<noteq> [] then '''' # concat props else [])
                   @ mapProps @ [''''])) \<and>
         (\<forall>fuel q ls. buildProperty ext svc fuel q = Some ls \<longrightarrow>
            (\<exists>linked. buildLinkedTypeName ext svc fuel (TypedValue.truncate q) = Some linked \<and>
               ls = (''- `'' @ buildPropertyName ext q @ ''` '' @ linked
                       @ (if isRequired ext q then '''' else '' (optional)'')
                       @ buildParameterDescription (Property.description q))
                    # buildRules (rules q)))"
proof -
  have ok: "infoOk svc info" using run by (rule infoOk_closure)
  have s1: "Sorting_Algorithms.sorted (Comparator.key Type.name (localeCompare ext)) (get_types (localeCompare ext) info)"
    by (rule get_types_sorted [OF run])
  have s2: "Sorting_Algorithms.sorted (Comparator.key Type.name (localeCompare ext)) (get_inputTypes (localeCompare ext) info)"
    unfolding get_inputTypes_def by (rule sorted_jsSort)
  have s3: "Sorting_Algorithms.sorted (Comparator.key Type.name (localeCompare ext)) (get_outputTypes (localeCompare ext) info)"
    unfolding get_outputTypes_def by (rule sorted_jsSort)
  have s4: "Sorting_Algorithms.sorted (Comparator.key Union.name (localeCompare ext)) (get_unions (localeCompare ext) info)"
    by (rule get_unions_sorted [OF run])
  have s5: "Sorting_Algorithms.sorted (Comparator.key Union.name (localeCompare ext)) (get_inputUnions (localeCompare ext) info)"
    unfolding get_inputUnions_def by (rule sorted_jsSort)
  have s6: "Sorting_Algorithms.sorted (Comparator.key Union.name (localeCompare ext)) (get_outputUnions (localeCompare ext) info)"
    unfolding get_outputUnions_def by (rule sorted_jsSort)
  have s7: "Sorting_Algorithms.sorted (Comparator.key Enum.name (localeCompare ext)) (get_enums (localeCompare ext) info)"
    by (rule get_enums_sorted [OF run])
  have m1: "Sorting_Algorithms.sorted (Comparator.key Method.name (localeCompare ext)) (Builder_methods ext intf)"
    unfolding Builder_methods_def by (rule sorted_jsSort)
  have m2: "mset (Builder_methods ext intf) = mset (methods intf)"
    by (simp add: Builder_methods_def)
  have doc: "Builder_types ext svc fuel intf = Some (get_types (localeCompare ext) info) \<and>
            Builder_enums ext svc fuel intf = Some (get_enums (localeCompare ext) info) \<and>
            (\<exists>methodDocs typeDocs.
               map (buildMethodDocs ext svc fuel) (Builder_methods ext intf) = map Some methodDocs \<and>
               map (buildTypeDocs ext svc fuel) (get_types (localeCompare ext) info) = map Some typeDocs \<and>
               doc = [''<!--''] @ warning ext svc
                     @ [''--->'', '''', ''# '' @ title ext (buildInterfaceName ext intf), '''']
                     @ buildInterfaceDescription intf
                     @ (if Builder_methods ext intf \<noteq> []
                        then ''- Methods'' # map (\<lambda>m. ''  - ['' @ buildMethodName ext m @ '']('' @ anchor (buildMethodName ext m) @ '')'')
                                               (Builder_methods ext intf)
                        else [])
                     @ (if get_types (localeCompare ext) info \<noteq> []
                        then ''- Types'' # map (\<lambda>t. ''  - ['' @ pascal ext (Type.name t) @ '']('' @ anchor (Type.name t) @ '')'')
                                             (get_types (localeCompare ext) info)
                        else [])
                     @ (if get_enums (localeCompare ext) info \<noteq> []
                        then ''- Enums'' # map (\<lambda>e. ''  - ['' @ pascal ext (Enum.name e) @ '']('' @ anchor (Enum.name e) @ '')'')
                                             (get_enums (localeCompare ext) info)
                        else [])
                     @ ['''']
                     @ (if Builder_methods ext intf \<noteq> [] then [''## Methods'', ''''] @ concat methodDocs else [])
                     @ (if get_types (localeCompare ext) info \<noteq> [] then [''## Types'', ''''] @ concat typeDocs else [])
                     @ (if get_enums (localeCompare ext) info \<noteq> []
                        then [''## Enums'', ''''] @ concat (map (buildEnumDocs ext) (get_enums (localeCompare ext) info))
                        else []) \<and>
               map (take 3) methodDocs =
                 map (\<lambda>m. [''### '' @ buildMethodName ext m, '''', ''`'' @ buildMethodDefinition ext m @ ''`''])
                   (Builder_methods ext intf) \<and>
               map (take 3) typeDocs =
                 map (\<lambda>t. [''### '' @ pascal ext (Type.name t), '''', ''`'' @ pascal ext (Type.name t) @ ''`''])
                   (get_types (localeCompare ext) info) \<and>
               map (\<lambda>e. take 3 (buildEnumDocs ext e)) (get_enums (localeCompare ext) info) =
                 map (\<lambda>e. [''### '' @ pascal ext (Enum.name e), '''', ''`'' @ pascal ext (Enum.name e) @ ''`''])
                   (get_enums (localeCompare ext) info))"
    if d: "buildInterfaceDocs ext svc fuel intf = Some doc" for fuel doc
  proof -
    note runf = document_run_info [OF d run]
    from d obtain methodDocs typeDocs where
      m: "map (buildMethodDocs ext svc fuel) (Builder_methods ext intf) = map Some methodDocs" and
      t: "map (buildTypeDocs ext svc fuel) (get_types (localeCompare ext) info) = map Some typeDocs" and
      lay: "doc = [''<!--''] @ warning ext svc
                     @ [''--->'', '''', ''# '' @ title ext (buildInterfaceName ext intf), '''']
                     @ buildInterfaceDescription intf
                     @ (if Builder_methods ext intf \<noteq> []
                        then ''- Methods'' # map (\<lambda>m. ''  - ['' @ buildMethodName ext m @ '']('' @ anchor (buildMethodName ext m) @ '')'')
                                               (Builder_methods ext intf)
                        else [])
                     @ (if get_types (localeCompare ext) info \<noteq> []
                        then ''- Types'' # map (\<lambda>t. ''  - ['' @ pascal ext (Type.name t) @ '']('' @ anchor (Type.name t) @ '')'')
                                             (get_types (localeCompare ext) info)
                        else [])
                     @ (if get_enums (localeCompare ext) info \<noteq> []
                        then ''- Enums'' # map (\<lambda>e. ''  - ['' @ pascal ext (Enum.name e) @ '']('' @ anchor (Enum.name e) @ '')'')
                                             (get_enums (localeCompare ext) info)
                        else [])
                     @ ['''']
                     @ (if Builder_methods ext intf \<noteq> [] then [''## Methods'', ''''] @ concat methodDocs else [])
                     @ (if get_types (localeCompare ext) info \<noteq> [] then [''## Types'', ''''] @ concat typeDocs else [])
                     @ (if get_enums (localeCompare ext) info \<noteq> []
                        then [''## Enums'', ''''] @ concat (map (buildEnumDocs ext) (get_enums (localeCompare ext) info))
                        else [])"
      unfolding document_layout [OF runf] by blast
    have he: "map (\<lambda>e. take 3 (buildEnumDocs ext e)) (get_enums (localeCompare ext) info) =
                 map (\<lambda>e. [''### '' @ pascal ext (Enum.name e), '''', ''`'' @ pascal ext (Enum.name e) @ ''`''])
                   (get_enums (localeCompare ext) info)"
      by (simp add: enumDocs_head)
    from Builder_types_run [OF runf, of ext] Builder_enums_run [OF runf, of ext] m t lay
      methodDocs_heads [OF m] typeDocs_heads [OF t] he
    show ?thesis by blast
  qed
  have tyd: "\<exists>props mapProps.
               map (buildProperty ext svc fuel) (properties ty) = map Some props \<and>
               mapPropertiesLines ext svc fuel ty = Some mapProps \<and>
               d = [''### '' @ pascal ext (Type.name ty), '''', ''`'' @ pascal ext (Type.name ty) @ ''`'']
                   @ descriptionLines (Type.description ty)
                   @ (if properties ty \<noteq> [] then '''' # concat props else [])
                   @ mapProps @ ['''']"
    if "buildTypeDocs ext svc fuel ty = Some d" for fuel ty d
    using that unfolding buildTypeDocs_Some propertyLines_Some by blast
  have prl: "\<exists>linked. buildLinkedTypeName ext svc fuel (TypedValue.truncate q) = Some linked \<and>
               ls = (''- `'' @ buildPropertyName ext q @ ''` '' @ linked
                       @ (if isRequired ext q then '''' else '' (optional)'')
                       @ buildParameterDescription (Property.description q))
                    # buildRules (rules q)"
    if "buildProperty ext svc fuel q = Some ls" for fuel q ls
    using that unfolding buildProperty_Some .
  from s1 s2 s3 s4 s5 s6 s7 m1 m2 doc tyd prl show ?thesis by blast
qed

text \<open>
  The \<open>orders\<close> interface declares everything against the alphabet: the methods \<open>b\<close>, \<open>a\<close>,
  the types \<open>WidgetReceipt\<close>, \<open>Widget\<close>, the enums \<open>Shape\<close>, \<open>Color\<close>. The resolver lists
  \<open>Widget\<close>, \<open>WidgetReceipt\<close> and \<open>Color\<close>, \<open>Shape\<close>; the document has its table of contents
  and its sections in that order, with \<open>a\<close> before \<open>b\<close>; and the type \<open>Widget\<close> keeps its
  property \<open>shape\<close> before its property \<open>color\<close>.
\<close>

theorem collections_and_sections_are_sorted_by_name_witness:
  "newInterfaceInfo orderService 4 orderInterface = Some orderInfo \<and>
   map Method.name (methods orderInterface) = [''b'', ''a''] \<and>
   map Method.name (Builder_methods exampleExt orderInterface) = [''a'', ''b''] \<and>
   types orderService = [receiptType, orderWidget] \<and>
   get_types (localeCompare exampleExt) orderInfo = [orderWidget, receiptType] \<and>
   Sorting_Algorithms.sorted (Comparator.key Type.name (localeCompare exampleExt))
     [orderWidget, receiptType] \<and>
   enums orderService = [shapeEnum, colorEnum] \<and>
   get_enums (localeCompare exampleExt) orderInfo = [colorEnum, shapeEnum] \<and>
   Sorting_Algorithms.sorted (Comparator.key Enum.name (localeCompare exampleExt))
     [colorEnum, shapeEnum] \<and>
   Builder_types exampleExt orderService 4 orderInterface = Some [orderWidget, receiptType] \<and>
   Builder_enums exampleExt orderService 4 orderInterface = Some [colorEnum, shapeEnum] \<and>
   buildInterfaceDocs exampleExt orderService 4 orderInterface = Some orderDoc \<and>
   map Property.name (properties orderWidget) = [''shape'', ''color''] \<and>
   map (buildProperty exampleExt orderService 4) (properties orderWidget) =
     map Some [[''- `shape` [&lt;Shape&gt;](#shape) (optional)''],
               [''- `color` [&lt;Color&gt;](#color) (optional)'']] \<and>
   buildTypeDocs exampleExt orderService 4 orderWidget =
     Some [''### Widget'', '''', ''`Widget`'', '''',
           ''- `shape` [&lt;Shape&gt;](#shape) (optional)'',
           ''- `color` [&lt;Color&gt;](#color) (optional)'', '''']"
proof -
  have run: "newInterfaceInfo orderService 4 orderInterface = Some orderInfo" by code_simp
  have doc: "buildInterfaceDocs exampleExt orderService 4 orderInterface = Some orderDoc"
    by code_simp
  have ms: "map Method.name (methods orderInterface) = [''b'', ''a'']"
    by (simp add: orderInterface_def mkInterface_def mkMethod_def)
  have bm: "map Method.name (Builder_methods exampleExt orderInterface) = [''a'', ''b'']"
    by code_simp
  have tys: "types orderService = [receiptType, orderWidget]" by (simp add: orderService_def)
  have ens: "enums orderService = [shapeEnum, colorEnum]" by (simp add: orderService_def)
  have gt: "get_types (localeCompare exampleExt) orderInfo = [orderWidget, receiptType]"
    by code_simp
  have ge: "get_enums (localeCompare exampleExt) orderInfo = [colorEnum, shapeEnum]"
    by code_simp
  have ps: "map Property.name (properties orderWidget) = [''shape'', ''color'']"
    by (simp add: orderWidget_def mkType_def mkProp_def)
  have bp: "map (buildProperty exampleExt orderService 4) (properties orderWidget) =
     map Some [[''- `shape` [&lt;Shape&gt;](#shape) (optional)''],
               [''- `color` [&lt;Color&gt;](#color) (optional)'']]"
    by code_simp
  have td0: "buildTypeDocs exampleExt orderService 4 orderWidget =
     Some [''### Widget'', '''', ''`Widget`'', '''',
           ''- `shape` [&lt;Shape&gt;](#shape) (optional)'',
           ''- `color` [&lt;Color&gt;](#color) (optional)'', '''']"
    by code_simp
  note t = collections_and_sections_are_sorted_by_name [OF run, of exampleExt]
  note st = t [THEN conjunct1]
  note se = t [THEN conjunct2, THEN conjunct2, THEN conjunct2, THEN conjunct2, THEN conjunct2,
      THEN conjunct2, THEN conjunct1]
  note td = t [THEN conjunct2, THEN conjunct2, THEN conjunct2, THEN conjunct2, THEN conjunct2,
      THEN conjunct2, THEN conjunct2, THEN conjunct2, THEN conjunct2, THEN conjunct1,
      THEN spec, THEN spec, THEN mp, OF doc]
  from st have srt: "Sorting_Algorithms.sorted (Comparator.key Type.name (localeCompare exampleExt))
     [orderWidget, receiptType]"
    by (simp only: gt)
  from se have sre: "Sorting_Algorithms.sorted (Comparator.key Enum.name (localeCompare exampleExt))
     [colorEnum, shapeEnum]"
    by (simp only: ge)
  from td have bt: "Builder_types exampleExt orderService 4 orderInterface = Some [orderWidget, receiptType]"
    by (simp only: gt)
  from td have be: "Builder_enums exampleExt orderService 4 orderInterface = Some [colorEnum, shapeEnum]"
    by (simp only: ge)
  from run ms bm tys gt srt ens ge sre bt be doc ps bp td0 show ?thesis by (intro conjI)
qed

subsection \<open>Anchors of the table of contents\<close>

text \<open>
  Claim C5. The anchor rule is \<open>anchor\<close>, and a section's heading is \<open>###\<close> and the
  display name. For a method the entry of the table of contents takes the anchor of the
  display name, which is the heading. For a type (and an enum) the entry displays
  \<open>pascal name\<close>, which is also the heading, but takes the anchor of the name itself. For
  the type \<open>widget_receipt\<close> the entry points to \<open>#widget_receipt\<close>, while the heading is
  \<open>WidgetReceipt\<close>, whose anchor is \<open>#widgetreceipt\<close>; a reference to the type from a
  return value links to \<open>#widgetreceipt\<close>.
\<close>

theorem toc_anchor_of_type_misses_its_heading:
  "buildToc exampleExt snakeService 3 snakeInterface =
     Some [''- Methods'', ''  - [get](#get)'', ''- Types'', ''  - [WidgetReceipt](#widget_receipt)''] \<and>
   buildMethodDocs exampleExt snakeService 3 (mkMethod ''get'' [] (Some (mkRef ''widget_receipt''))) =
     Some [''### get'', '''', ''`get`'', '''',
           ''Returns: [&lt;WidgetReceipt&gt;](#widgetreceipt)'', ''''] \<and>
   buildTypeDocs exampleExt snakeService 3 snakeType =
     Some [''### WidgetReceipt'', '''', ''`WidgetReceipt`'', ''''] \<and>
   anchor ''get'' = ''#get'' \<and>
   anchor ''WidgetReceipt'' = ''#widgetreceipt'' \<and>
   anchor ''WidgetReceipt'' \<noteq> ''#widget_receipt''"
  by code_simp

subsection \<open>Descriptions of enum values\<close>

text \<open>
  A value is listed with the description that the object of value descriptions gives for
  it: its own entry, or a property the object inherits. With an object that has no entry
  of its own, the value \<open>red\<close> has no description and the value \<open>constructor\<close> has the
  inherited one.
\<close>

lemma inherited_value_description:
  "buildEnumDocs exampleExt
     \<lparr> Enum.name = ''Kind'', values = [''red'', ''constructor''], enumDescription = None,
       valueDescriptions = Some [] \<rparr>
   = [''### Kind'', '''', ''`Kind`'', '''', ''- `red`'',
      ''- `constructor` - function Object() { [native code] }'', '''']"
  by code_simp

end
